theory Spec2Isabelle
  imports Main "HOL-Library.Sublist"
begin

section \<open>Path containment and list merging (album.go, lines 155--185)\<close>

text \<open>
  Go strings are byte sequences; they are modelled as \<^typ>\<open>string\<close>.
  \<^verbatim>\<open>strings.TrimLeft(s, cutset)\<close> removes every leading byte of \<open>s\<close> that occurs in
  \<open>cutset\<close> (the library works on code points; for an ASCII cutset such as \<open>"/"\<close>, the
  only one used here, that is the same as working on bytes).
\<close>

definition TrimLeft :: "string \<Rightarrow> string \<Rightarrow> string" where
  "TrimLeft s cutset = dropWhile (\<lambda>c. c \<in> set cutset) s"

text \<open>
  \<^verbatim>\<open>containsPath\<close>: the loop over \<open>corpus\<close> returns at the first element whose
  stripped form equals the stripped \<open>findme\<close>.
\<close>

fun containsPath :: "string list \<Rightarrow> string \<Rightarrow> bool" where
  "containsPath [] findme = False"
| "containsPath (current # corpus) findme =
     (if TrimLeft current ''/'' = TrimLeft findme ''/'' then True
      else containsPath corpus findme)"

text \<open>
  \<^verbatim>\<open>mergeList\<close> runs two loops over one accumulator \<open>mergedKeys\<close>. The first loop
  (lines 171--176) walks \<open>configKeys\<close>, the second (lines 177--183) walks
  \<open>bucketKeys\<close>; each is a recursion that carries the accumulator.
\<close>

fun mergeConfigKeys :: "string list \<Rightarrow> string list \<Rightarrow> string list \<Rightarrow> string list" where
  "mergeConfigKeys bucketKeys [] mergedKeys = mergedKeys"
| "mergeConfigKeys bucketKeys (configKey # configKeys) mergedKeys =
     (if containsPath bucketKeys configKey
      then mergeConfigKeys bucketKeys configKeys (mergedKeys @ [configKey])
      else mergeConfigKeys bucketKeys configKeys mergedKeys)"

fun mergeBucketKeys :: "string list \<Rightarrow> string list \<Rightarrow> string list" where
  "mergeBucketKeys [] mergedKeys = mergedKeys"
| "mergeBucketKeys (bucketKey # bucketKeys) mergedKeys =
     (if \<not> containsPath mergedKeys bucketKey
      then mergeBucketKeys bucketKeys (mergedKeys @ [bucketKey])
      else mergeBucketKeys bucketKeys mergedKeys)"

definition mergeList :: "string list \<Rightarrow> string list \<Rightarrow> string list" where
  "mergeList bucketKeys configKeys =
     mergeBucketKeys bucketKeys (mergeConfigKeys bucketKeys configKeys [])"

text \<open>
  The comparison the specification describes for \<^verbatim>\<open>containsPath\<close>: strip a single
  leading separator from each side, then compare exactly. It is written from the
  specification's words, to be compared with the function above.
\<close>

definition stripOneSeparator :: "string \<Rightarrow> string" where
  "stripOneSeparator s = (case s of [] \<Rightarrow> [] | c # cs \<Rightarrow> if c = CHR ''/'' then cs else s)"

definition containsPath_spec :: "string list \<Rightarrow> string \<Rightarrow> bool" where
  "containsPath_spec corpus key =
     list_ex (\<lambda>current. stripOneSeparator current = stripOneSeparator key) corpus"

text \<open>The key under which two paths are compared: all leading separators removed.\<close>

abbreviation stripped :: "string \<Rightarrow> string" where
  "stripped k \<equiv> TrimLeft k ''/''"

section \<open>Errors, panics and the data model (album.go, lines 20--70)\<close>

text \<open>
  A Go \<^verbatim>\<open>error\<close> value is either an \<^verbatim>\<open>awserr.RequestFailure\<close>, which carries an
  HTTP status code, or any other error. A function returning \<^verbatim>\<open>(T, error)\<close> is
  modelled as returning a pair whose second component is \<open>None\<close> for \<^verbatim>\<open>nil\<close>.
  A run-time panic (an index out of range, a nil pointer dereference) is the left
  summand of the result.
\<close>

datatype error = RequestFailure int | OtherError string

datatype panic = IndexOutOfRange | NilDereference

text \<open>
  Time is in nanoseconds. \<^verbatim>\<open>time.Now().Sub(t) > CACHE_INTERVAL\<close> saturates at the
  ends of the 64-bit range, both of which lie on the same side of one hour as the exact
  difference does, so the comparison is the one on unbounded integers.
\<close>

type_synonym time = int

definition CACHE_INTERVAL :: int where
  "CACHE_INTERVAL = 1 * 3600000000000"

definition ORDERING_YAML_NAME :: string where
  "ORDERING_YAML_NAME = ''ordering.yaml''"

record AlbumOrderingConfiguration =
  Cover :: string
  Thumbnails :: "string list"
  Ordering :: "string list"
  negativeCacheThis :: bool

text \<open>The zero value of \<^verbatim>\<open>var albumOrdering AlbumOrderingConfiguration\<close>.\<close>

definition zeroConfiguration :: AlbumOrderingConfiguration where
  "zeroConfiguration = \<lparr>Cover = [], Thumbnails = [], Ordering = [], negativeCacheThis = False\<rparr>"

text \<open>
  \<^verbatim>\<open>AlbumOrdering\<close> has the same field names as the configuration; here they carry
  the suffix \<open>_r\<close>. \<open>'r\<close> is the type \<^verbatim>\<open>Renderable\<close>, declared outside this file; the
  cover of the zero value is the nil interface, \<open>None\<close>.
\<close>

record 'r AlbumOrdering =
  Cover_r :: "'r option"
  Thumbnails_r :: "'r list"
  Ordering_r :: "'r list"

definition zeroOrdering :: "'r AlbumOrdering" where
  "zeroOrdering = \<lparr>Cover_r = None, Thumbnails_r = [], Ordering_r = []\<rparr>"

text \<open>
  The album. An \<^verbatim>\<open>atomic.Value\<close> that was never stored to loads \<^verbatim>\<open>nil\<close>: \<open>None\<close>.
  The two mutexes serialise the refreshes and hold no data; the \<^verbatim>\<open>site\<close> pointer is
  the environment below.
\<close>

record Album =
  Path :: string
  BucketPrefix :: string
  AuthUser :: string
  AuthPass :: string
  MetaTitle :: string
  AlbumTitle :: string
  InIndex :: bool
  KeyCache :: "string list option"
  OrderingCache :: "AlbumOrderingConfiguration option"
  LastKeyCacheUpdate :: time
  LastOrderingCacheUpdate :: time

text \<open>
  What the album code calls but does not define: the site and its object store, the
  YAML and URL libraries, the clock. Each field is the observable behaviour of one
  collaborator.
  \<^item> \<open>S3ServiceError\<close>: the error of \<^verbatim>\<open>a.site.GetS3Service()\<close>, \<open>None\<close> when it returns
    a service.
  \<^item> \<open>ListObjects prefix\<close>: the keys of \<^verbatim>\<open>objects.Contents\<close> for the site's bucket, this
    prefix and the delimiter \<^verbatim>\<open>"/"\<close>, or the error.
  \<^item> \<open>GetObject key\<close>: the bytes read from the object's body, or the error.
  \<^item> \<open>YamlUnmarshal data\<close>: the three exported fields that \<^verbatim>\<open>yaml.Unmarshal\<close> leaves
    in the zero-valued configuration, and its error.
  \<^item> \<open>ResolveReference base ref\<close>: the string of
    \<^verbatim>\<open>url.Parse(base).ResolveReference(url.Parse(ref))\<close>; \<open>None\<close> when a parse fails, its
    error is dropped and the nil URL is dereferenced.
  \<^item> \<open>GetPhotoForKey\<close>: \<^verbatim>\<open>a.site.GetPhotoForKey\<close>.
  \<^item> \<open>Now\<close>: \<^verbatim>\<open>time.Now()\<close>, taken as constant during one call.
\<close>

record 'r Env =
  S3ServiceError :: "error option"
  ListObjects :: "string \<Rightarrow> error + string list"
  GetObject :: "string \<Rightarrow> error + string"
  YamlUnmarshal :: "string \<Rightarrow> (string \<times> string list \<times> string list) \<times> error option"
  ResolveReference :: "string \<Rightarrow> string \<Rightarrow> string option"
  GetPhotoForKey :: "string \<Rightarrow> 'r"
  Now :: time

section \<open>Construction and validation (album.go, lines 72--125)\<close>

definition HasOwnAuth :: "Album \<Rightarrow> bool" where
  "HasOwnAuth a \<longleftrightarrow> AuthUser a \<noteq> [] \<and> AuthPass a \<noteq> []"

definition IsValid :: "Album \<Rightarrow> error option" where
  "IsValid a =
     (if Path a = [] then
        Some (OtherError '''Path' is a required parameters that must have a valid value.'')
      else if InIndex a \<and> HasOwnAuth a then
        Some (OtherError (''An album that requires authentication can't be shown in the index. '' @
                          ''If you need authentication please add it to the site.''))
      else None)"

text \<open>\<^verbatim>\<open>a.Path[len(a.Path)-1]\<close> panics on the empty path.\<close>

definition Canonicalize :: "Album \<Rightarrow> panic + Album" where
  "Canonicalize a =
     (if Path a = [] then Inl IndexOutOfRange
      else if last (Path a) \<noteq> CHR ''/'' then Inr (a\<lparr>Path := Path a @ ''/''\<rparr>)
      else Inr a)"

text \<open>The zero time.Time, in nanoseconds from the Unix epoch.\<close>

definition zeroTime :: time where
  "zeroTime = - 62135596800 * 1000000000"

text \<open>
  A constructor returns \<^verbatim>\<open>(nil, err)\<close> or \<^verbatim>\<open>(album, nil)\<close>: \<open>Inr (Inl err)\<close> or
  \<open>Inr (Inr album)\<close>.
\<close>

definition NewAlbum ::
  "string \<Rightarrow> string \<Rightarrow> string \<Rightarrow> string \<Rightarrow> string \<Rightarrow> string \<Rightarrow> panic + (error + Album)" where
  "NewAlbum path bucketPrefix authUser authPass metaTitle albumTitle =
     (let album = \<lparr>Path = path, BucketPrefix = bucketPrefix, AuthUser = authUser,
                    AuthPass = authPass, MetaTitle = metaTitle, AlbumTitle = albumTitle,
                    InIndex = True, KeyCache = None, OrderingCache = None,
                    LastKeyCacheUpdate = zeroTime, LastOrderingCacheUpdate = zeroTime\<rparr>
      in case IsValid album of
           Some err \<Rightarrow> Inr (Inl err)
         | None \<Rightarrow> (case Canonicalize album of Inl p \<Rightarrow> Inl p | Inr album' \<Rightarrow> Inr (Inr album')))"

text \<open>
  \<^verbatim>\<open>section.MapTo(album)\<close> belongs to the ini library: \<open>mapTo\<close> takes the album as
  initialised and gives the album with the section's values, or the error.
\<close>

definition NewAlbumFromConfig :: "(Album \<Rightarrow> error + Album) \<Rightarrow> panic + (error + Album)" where
  "NewAlbumFromConfig mapTo =
     (let album = \<lparr>Path = [], BucketPrefix = [], AuthUser = [], AuthPass = [], MetaTitle = [],
                    AlbumTitle = [], InIndex = True, KeyCache = None, OrderingCache = None,
                    LastKeyCacheUpdate = zeroTime, LastOrderingCacheUpdate = zeroTime\<rparr>
      in case mapTo album of
           Inl err \<Rightarrow> Inr (Inl err)
         | Inr mapped \<Rightarrow>
             (case IsValid mapped of
                Some err \<Rightarrow> Inr (Inl err)
              | None \<Rightarrow>
                  (case Canonicalize mapped of Inl p \<Rightarrow> Inl p | Inr album' \<Rightarrow> Inr (Inr album'))))"

section \<open>The key listing and its cache (album.go, lines 202--240, 338--380, 529--531)\<close>

definition GetAllObjects :: "'r Env \<Rightarrow> Album \<Rightarrow> string list \<times> error option" where
  "GetAllObjects env a =
     (case S3ServiceError env of
        Some err \<Rightarrow> ([], Some err)
      | None \<Rightarrow>
          (case ListObjects env (BucketPrefix a) of
             Inl err \<Rightarrow> ([], Some err)
           | Inr contents \<Rightarrow> (contents, None)))"

text \<open>
  The loop of \<^verbatim>\<open>GetAllObjectKeysFromBucket\<close> (lines 231--237): a key that does not end
  in \<^verbatim>\<open>'/'\<close> is appended. \<^verbatim>\<open>key[len(*obj.Key)-1]\<close> panics on an empty key.
\<close>

fun dropFolders :: "string list \<Rightarrow> string list \<Rightarrow> panic + string list" where
  "dropFolders [] imageKeys = Inr imageKeys"
| "dropFolders (key # objects) imageKeys =
     (if key = [] then Inl IndexOutOfRange
      else if last key \<noteq> CHR ''/'' then dropFolders objects (imageKeys @ [key])
      else dropFolders objects imageKeys)"

definition GetAllObjectKeysFromBucket ::
  "'r Env \<Rightarrow> Album \<Rightarrow> panic + string list \<times> error option" where
  "GetAllObjectKeysFromBucket env a =
     (case GetAllObjects env a of
        (objects, Some err) \<Rightarrow> Inr ([], Some err)
      | (objects, None) \<Rightarrow>
          (case dropFolders objects [] of
             Inl p \<Rightarrow> Inl p
           | Inr imageKeys \<Rightarrow> Inr (imageKeys, None)))"

definition NeedsKeyCacheUpdate :: "'r Env \<Rightarrow> Album \<Rightarrow> bool" where
  "NeedsKeyCacheUpdate env a \<longleftrightarrow> Now env - LastKeyCacheUpdate a > CACHE_INTERVAL"

text \<open>
  The fetch and the conditional store that both branches of \<^verbatim>\<open>GetAllObjectKeys\<close> run
  under the mutex (lines 352--356 and 363--367): the fetched pair and the album after it.
\<close>

definition fetchAndStoreKeys ::
  "'r Env \<Rightarrow> Album \<Rightarrow> panic + (string list \<times> error option) \<times> Album" where
  "fetchAndStoreKeys env a =
     (case GetAllObjectKeysFromBucket env a of
        Inl p \<Rightarrow> Inl p
      | Inr (keys, err) \<Rightarrow>
          Inr ((keys, err),
               if err = None then a\<lparr>KeyCache := Some keys, LastKeyCacheUpdate := Now env\<rparr>
               else a))"

text \<open>
  \<^verbatim>\<open>GetAllObjectKeys\<close> starts a goroutine and returns what it sends on the channel.
  With an empty slot the goroutine fetches, stores and only then sends; with a filled
  slot it sends the cached keys first and refreshes afterwards. The model returns what
  the caller receives together with the album once the goroutine has finished; a panic in
  the goroutine ends the program, so it is the outcome of the call. Other goroutines
  running in between are not modelled.
\<close>

definition GetAllObjectKeys ::
  "'r Env \<Rightarrow> Album \<Rightarrow> panic + (string list \<times> error option) \<times> Album" where
  "GetAllObjectKeys env a =
     (case KeyCache a of
        Some cached \<Rightarrow>
          (if NeedsKeyCacheUpdate env a then
             (case fetchAndStoreKeys env a of
                Inl p \<Rightarrow> Inl p
              | Inr (fetched, a') \<Rightarrow> Inr ((cached, None), a'))
           else Inr ((cached, None), a))
      | None \<Rightarrow>
          (case fetchAndStoreKeys env a of
             Inl p \<Rightarrow> Inl p
           | Inr ((keys, err), a') \<Rightarrow>
               (if err \<noteq> None then Inr (([], err), a') else Inr ((keys, err), a'))))"

section \<open>The ordering document and its cache (album.go, lines 382--508, 533--535)\<close>

text \<open>
  One pass of the loops at lines 438--444 and 449--455. \<^verbatim>\<open>range\<close> evaluates the
  slice once, so the loop walks the entries the field had on entry (first argument
  after the resolver) while each resolved key is appended to the field itself (last
  argument).
\<close>

fun appendResolved ::
  "(string \<Rightarrow> string option) \<Rightarrow> string list \<Rightarrow> string list \<Rightarrow> panic + string list" where
  "appendResolved resolve [] field = Inr field"
| "appendResolved resolve (v # vs) field =
     (case resolve v of
        None \<Rightarrow> Inl NilDereference
      | Some fullPath \<Rightarrow> appendResolved resolve vs (field @ [fullPath]))"

text \<open>Lines 427--458: what is done to a document that parsed.\<close>

definition preprocess ::
  "'r Env \<Rightarrow> Album \<Rightarrow> AlbumOrderingConfiguration \<Rightarrow> panic + AlbumOrderingConfiguration" where
  "preprocess env a albumOrdering =
     (case (if Cover albumOrdering \<noteq> [] then
              (case ResolveReference env (Path a) (Cover albumOrdering) of
                 None \<Rightarrow> Inl NilDereference
               | Some fullPath \<Rightarrow> Inr (albumOrdering\<lparr>Cover := fullPath\<rparr>))
            else Inr albumOrdering) of
        Inl p \<Rightarrow> Inl p
      | Inr o1 \<Rightarrow>
          (case (if length (Thumbnails o1) > 0 then
                   appendResolved (ResolveReference env (Path a)) (Thumbnails o1) (Thumbnails o1)
                 else Inr (Thumbnails o1)) of
             Inl p \<Rightarrow> Inl p
           | Inr thumbnailKeys \<Rightarrow>
               (case (if length (Ordering o1) > 0 then
                        appendResolved (ResolveReference env (Path a)) (Ordering o1) (Ordering o1)
                      else Inr (Ordering o1)) of
                  Inl p \<Rightarrow> Inl p
                | Inr orderingKeys \<Rightarrow>
                    Inr (o1\<lparr>Thumbnails := thumbnailKeys, Ordering := orderingKeys\<rparr>))))"

definition GetAlbumOrderingConfigurationFromS3AndPreprocess ::
  "'r Env \<Rightarrow> Album \<Rightarrow> panic + AlbumOrderingConfiguration \<times> error option" where
  "GetAlbumOrderingConfigurationFromS3AndPreprocess env a =
     (case S3ServiceError env of
        Some err \<Rightarrow> Inr (zeroConfiguration, Some err)
      | None \<Rightarrow>
          (case GetObject env (BucketPrefix a @ ORDERING_YAML_NAME) of
             Inl err \<Rightarrow>
               Inr ((case err of
                       RequestFailure code \<Rightarrow>
                         if code = 404 then zeroConfiguration\<lparr>negativeCacheThis := True\<rparr>
                         else zeroConfiguration
                     | OtherError msg \<Rightarrow> zeroConfiguration),
                    Some err)
           | Inr data_bytes \<Rightarrow>
               (case YamlUnmarshal env data_bytes of
                  ((cover, thumbnailKeys, orderingKeys), Some err) \<Rightarrow>
                    Inr (\<lparr>Cover = cover, Thumbnails = thumbnailKeys, Ordering = orderingKeys,
                          negativeCacheThis = True\<rparr>, Some err)
                | ((cover, thumbnailKeys, orderingKeys), None) \<Rightarrow>
                    (case preprocess env a
                            \<lparr>Cover = cover, Thumbnails = thumbnailKeys, Ordering = orderingKeys,
                             negativeCacheThis = False\<rparr> of
                       Inl p \<Rightarrow> Inl p
                     | Inr albumOrdering \<Rightarrow> Inr (albumOrdering, None)))))"

definition NeedsOrderingCacheUpdate :: "'r Env \<Rightarrow> Album \<Rightarrow> bool" where
  "NeedsOrderingCacheUpdate env a \<longleftrightarrow> Now env - LastOrderingCacheUpdate a > CACHE_INTERVAL"

text \<open>
  The fetch and the conditional store of lines 472--479 and 485--492.
  \<^verbatim>\<open>GetAlbumOrderingConfiguration\<close> has the shape of \<^verbatim>\<open>GetAllObjectKeys\<close> and is
  modelled the same way: what the caller receives, and the album once the goroutine has
  finished.
\<close>

definition fetchAndStoreOrdering ::
  "'r Env \<Rightarrow> Album \<Rightarrow> panic + (AlbumOrderingConfiguration \<times> error option) \<times> Album" where
  "fetchAndStoreOrdering env a =
     (case GetAlbumOrderingConfigurationFromS3AndPreprocess env a of
        Inl p \<Rightarrow> Inl p
      | Inr (albumOrdering, err) \<Rightarrow>
          Inr ((albumOrdering, err),
               if err = None \<or> negativeCacheThis albumOrdering
               then a\<lparr>OrderingCache := Some albumOrdering, LastOrderingCacheUpdate := Now env\<rparr>
               else a))"

definition GetAlbumOrderingConfiguration ::
  "'r Env \<Rightarrow> Album \<Rightarrow> panic + (AlbumOrderingConfiguration \<times> error option) \<times> Album" where
  "GetAlbumOrderingConfiguration env a =
     (case OrderingCache a of
        Some cached \<Rightarrow>
          (if NeedsOrderingCacheUpdate env a then
             (case fetchAndStoreOrdering env a of
                Inl p \<Rightarrow> Inl p
              | Inr (fetched, a') \<Rightarrow> Inr ((cached, None), a'))
           else Inr ((cached, None), a))
      | None \<Rightarrow>
          (case fetchAndStoreOrdering env a of
             Inl p \<Rightarrow> Inl p
           | Inr ((albumOrdering, err), a') \<Rightarrow>
               (if err \<noteq> None then Inr ((zeroConfiguration, err), a')
                else Inr ((albumOrdering, err), a'))))"

section \<open>Resolving cover, thumbnails and ordering (album.go, lines 242--336)\<close>

text \<open>\<^verbatim>\<open>strings.HasSuffix\<close>, as the library defines it.\<close>

definition HasSuffix :: "string \<Rightarrow> string \<Rightarrow> bool" where
  "HasSuffix s suf \<longleftrightarrow> length s \<ge> length suf \<and> drop (length s - length suf) s = suf"

text \<open>The loop at lines 270--279, with its accumulator \<^verbatim>\<open>cleanImageKeys\<close>.\<close>

fun cleanKeys :: "string list \<Rightarrow> string list \<Rightarrow> string list" where
  "cleanKeys [] cleanImageKeys = cleanImageKeys"
| "cleanKeys (v # imageKeys) cleanImageKeys =
     (if HasSuffix v ORDERING_YAML_NAME then cleanKeys imageKeys cleanImageKeys
      else cleanKeys imageKeys (cleanImageKeys @ [v]))"

text \<open>\<^verbatim>\<open>cleanImageKeys[0]\<close>: an index expression, which panics on the empty slice.\<close>

definition firstKey :: "string list \<Rightarrow> panic + string" where
  "firstKey cleanImageKeys =
     (case cleanImageKeys of [] \<Rightarrow> Inl IndexOutOfRange | k # ks \<Rightarrow> Inr k)"

text \<open>Lines 292--302: the key whose photo becomes the cover.\<close>

definition coverKey :: "AlbumOrderingConfiguration \<Rightarrow> string list \<Rightarrow> panic + string" where
  "coverKey albumOrderingConfiguration cleanImageKeys =
     (if Cover albumOrderingConfiguration \<noteq> [] then
        (if containsPath cleanImageKeys (Cover albumOrderingConfiguration)
         then Inr (Cover albumOrderingConfiguration)
         else firstKey cleanImageKeys)
      else firstKey cleanImageKeys)"

text \<open>
  Lines 306--323. The slice expressions are within bounds by the guards before them:
  \<^verbatim>\<open>s[0:5]\<close> is \<open>take 5 s\<close>, \<^verbatim>\<open>s[0:]\<close> is \<open>s\<close>, \<^verbatim>\<open>s[1:6]\<close> is \<open>drop 1 (take 6 s)\<close> and
  \<^verbatim>\<open>s[1:]\<close> is \<open>drop 1 s\<close>.
\<close>

definition thumbKeys :: "AlbumOrderingConfiguration \<Rightarrow> string list \<Rightarrow> string list" where
  "thumbKeys albumOrderingConfiguration cleanImageKeys =
     (if length (Thumbnails albumOrderingConfiguration) > 0 then
        (let merged = mergeList cleanImageKeys (Thumbnails albumOrderingConfiguration)
         in if length merged > 5 then take 5 merged
            else if length merged > 0 then drop 0 merged
            else merged)
      else
        (let copied = cleanImageKeys
         in if length copied > 6 then drop 1 (take 6 copied)
            else if length copied > 1 then drop 1 copied
            else copied))"

text \<open>
  \<^verbatim>\<open>GetOrderedPhotos\<close>. The error of the ordering configuration is only printed. The
  two loops that append \<^verbatim>\<open>GetPhotoForKey(v)\<close> for each key to an empty slice are
  \<open>map\<close>. The result is the returned pair and the album after both cache calls.
\<close>

definition GetOrderedPhotos ::
  "'r Env \<Rightarrow> Album \<Rightarrow> panic + ('r AlbumOrdering \<times> error option) \<times> Album" where
  "GetOrderedPhotos env a =
     (case GetAlbumOrderingConfiguration env a of
        Inl p \<Rightarrow> Inl p
      | Inr ((albumOrderingConfiguration, cfgErr), a1) \<Rightarrow>
          (case GetAllObjectKeys env a1 of
             Inl p \<Rightarrow> Inl p
           | Inr ((imageKeys, Some err), a2) \<Rightarrow> Inr ((zeroOrdering, Some err), a2)
           | Inr ((imageKeys, None), a2) \<Rightarrow>
               (let cleanImageKeys = cleanKeys imageKeys []
                in case coverKey albumOrderingConfiguration cleanImageKeys of
                     Inl p \<Rightarrow> Inl p
                   | Inr cover \<Rightarrow>
                       Inr ((\<lparr>Cover_r = Some (GetPhotoForKey env cover),
                              Thumbnails_r =
                                map (GetPhotoForKey env)
                                  (thumbKeys albumOrderingConfiguration cleanImageKeys),
                              Ordering_r =
                                map (GetPhotoForKey env)
                                  (mergeList cleanImageKeys
                                     (Ordering albumOrderingConfiguration))\<rparr>,
                             None), a2))))"

section \<open>Facts about the two merge loops\<close>

lemma containsPath_iff: "containsPath corpus k \<longleftrightarrow> stripped k \<in> stripped ` set corpus"
  by (induction corpus) auto

lemma containsPath_member: "k \<in> set corpus \<Longrightarrow> containsPath corpus k"
  by (auto simp: containsPath_iff)

lemma containsPath_append:
  "containsPath (xs @ ys) k \<longleftrightarrow> containsPath xs k \<or> containsPath ys k"
  by (auto simp: containsPath_iff)

lemma mergeConfigKeys_filter:
  "mergeConfigKeys B P acc = acc @ filter (containsPath B) P"
  by (induction P arbitrary: acc) auto

lemma mergeBucketKeys_extends: "\<exists>S. mergeBucketKeys B acc = acc @ S"
proof (induction B arbitrary: acc)
  case Nil
  show ?case by simp
next
  case (Cons b B)
  show ?case
  proof (cases "containsPath acc b")
    case True
    with Cons.IH [of acc] show ?thesis by simp
  next
    case False
    from Cons.IH [of "acc @ [b]"] obtain S where "mergeBucketKeys B (acc @ [b]) = (acc @ [b]) @ S"
      by blast
    with False show ?thesis by simp
  qed
qed

lemma mergeBucketKeys_set: "set (mergeBucketKeys B acc) \<subseteq> set acc \<union> set B"
proof (induction B arbitrary: acc)
  case Nil
  show ?case by simp
next
  case (Cons b B)
  show ?case
  proof (cases "containsPath acc b")
    case True
    with Cons.IH [of acc] show ?thesis by auto
  next
    case False
    with Cons.IH [of "acc @ [b]"] show ?thesis by auto
  qed
qed

lemma mergeBucketKeys_covers:
  "stripped ` set (mergeBucketKeys B acc) = stripped ` (set acc \<union> set B)"
proof (induction B arbitrary: acc)
  case Nil
  show ?case by simp
next
  case (Cons b B)
  show ?case
  proof (cases "containsPath acc b")
    case True
    then have "stripped b \<in> stripped ` set acc" by (simp add: containsPath_iff)
    with True Cons.IH [of acc] show ?thesis by auto
  next
    case False
    with Cons.IH [of "acc @ [b]"] show ?thesis by auto
  qed
qed

lemma mergeBucketKeys_distinct:
  "distinct (map stripped acc) \<Longrightarrow> distinct (map stripped (mergeBucketKeys B acc))"
proof (induction B arbitrary: acc)
  case Nil
  then show ?case by simp
next
  case (Cons b B)
  show ?case
  proof (cases "containsPath acc b")
    case True
    with Cons show ?thesis by simp
  next
    case False
    then have "stripped b \<notin> stripped ` set acc" by (simp add: containsPath_iff)
    with Cons.prems have "distinct (map stripped (acc @ [b]))" by simp
    from Cons.IH [OF this] False show ?thesis by simp
  qed
qed

lemma mergeBucketKeys_distinct_rev:
  "distinct (map stripped (mergeBucketKeys B acc)) \<Longrightarrow> distinct (map stripped acc)"
proof -
  assume d: "distinct (map stripped (mergeBucketKeys B acc))"
  obtain S where "mergeBucketKeys B acc = acc @ S"
    using mergeBucketKeys_extends by blast
  with d show ?thesis by simp
qed

text \<open>The second loop appends a subsequence of the bucket keys, none of which is in
  the accumulator it started from.\<close>

lemma mergeBucketKeys_suffix:
  "\<exists>S. mergeBucketKeys B acc = acc @ S \<and> subseq S B \<and> (\<forall>s \<in> set S. \<not> containsPath acc s)"
proof (induction B arbitrary: acc)
  case Nil
  show ?case by simp
next
  case (Cons b B)
  show ?case
  proof (cases "containsPath acc b")
    case True
    from Cons.IH [of acc] obtain S where
      S: "mergeBucketKeys B acc = acc @ S" "subseq S B" "\<forall>s \<in> set S. \<not> containsPath acc s"
      by blast
    from S(2) have "subseq S (b # B)" by (rule list_emb_Cons)
    with True S show ?thesis by auto
  next
    case False
    from Cons.IH [of "acc @ [b]"] obtain S where
      S: "mergeBucketKeys B (acc @ [b]) = (acc @ [b]) @ S" "subseq S B"
         "\<forall>s \<in> set S. \<not> containsPath (acc @ [b]) s"
      by blast
    have "mergeBucketKeys (b # B) acc = acc @ (b # S)" using False S(1) by simp
    moreover have "subseq (b # S) (b # B)" using S(2) by simp
    moreover have "\<forall>s \<in> set (b # S). \<not> containsPath acc s"
      using False S(3) by (auto simp: containsPath_append)
    ultimately show ?thesis by blast
  qed
qed

text \<open>When the bucket keys are pairwise different after stripping, the second loop
  appends exactly those that are not in the accumulator, in their order.\<close>

lemma mergeBucketKeys_distinct_bucket:
  "distinct (map stripped B) \<Longrightarrow>
   mergeBucketKeys B acc = acc @ filter (\<lambda>b. \<not> containsPath acc b) B"
proof (induction B arbitrary: acc)
  case Nil
  show ?case by simp
next
  case (Cons b B)
  from Cons.prems have dB: "distinct (map stripped B)" and nb: "stripped b \<notin> stripped ` set B"
    by auto
  show ?case
  proof (cases "containsPath acc b")
    case True
    with Cons.IH [OF dB, of acc] show ?thesis by simp
  next
    case False
    have "filter (\<lambda>x. \<not> containsPath (acc @ [b]) x) B = filter (\<lambda>x. \<not> containsPath acc x) B"
    proof (rule filter_cong [OF refl])
      fix x assume "x \<in> set B"
      with nb have "stripped x \<noteq> stripped b" by (metis imageI)
      then show "(\<not> containsPath (acc @ [b]) x) = (\<not> containsPath acc x)"
        by (auto simp: containsPath_iff)
    qed
    with False Cons.IH [OF dB, of "acc @ [b]"] show ?thesis by simp
  qed
qed


lemma containsPath_ex:
  "containsPath corpus k \<longleftrightarrow> (\<exists>current \<in> set corpus. stripped current = stripped k)"
  by (induction corpus) auto

lemma stripOne_stripped:
  "stripOneSeparator x = stripOneSeparator y \<Longrightarrow> stripped x = stripped y"
  by (cases x; cases y) (auto simp: stripOneSeparator_def TrimLeft_def split: if_splits)

lemma containsPath_spec_imp: "containsPath_spec corpus key \<Longrightarrow> containsPath corpus key"
  unfolding containsPath_spec_def list_ex_iff containsPath_ex
  using stripOne_stripped by blast

section \<open>Claims about path containment and merging\<close>

text \<open>
  C7 (as amended). \<^verbatim>\<open>containsPath(corpus, key)\<close> is true exactly when some element of the
  corpus equals the key after all leading path separators have been removed from both
  (not after removing a single one). The result does not change when one separator is
  put in front of the key or in front of every corpus element, and whenever the
  single-separator comparison of the specification finds the key, so does the code.
\<close>

theorem containsPath_strips_all_leading_separators:
  "(containsPath corpus key \<longleftrightarrow>
      (\<exists>current \<in> set corpus.
         dropWhile (\<lambda>c. c = CHR ''/'') current = dropWhile (\<lambda>c. c = CHR ''/'') key))
   \<and> containsPath corpus (CHR ''/'' # key) = containsPath corpus key
   \<and> containsPath (map (\<lambda>current. CHR ''/'' # current) corpus) key = containsPath corpus key
   \<and> (containsPath_spec corpus key \<longrightarrow> containsPath corpus key)"
proof (intro conjI)
  show "containsPath corpus key \<longleftrightarrow>
      (\<exists>current \<in> set corpus.
         dropWhile (\<lambda>c. c = CHR ''/'') current = dropWhile (\<lambda>c. c = CHR ''/'') key)"
    by (simp add: containsPath_ex TrimLeft_def)
  show "containsPath corpus (CHR ''/'' # key) = containsPath corpus key"
    by (simp add: containsPath_iff TrimLeft_def)
  show "containsPath (map (\<lambda>current. CHR ''/'' # current) corpus) key = containsPath corpus key"
    by (simp add: containsPath_iff TrimLeft_def image_image)
  show "containsPath_spec corpus key \<longrightarrow> containsPath corpus key"
    using containsPath_spec_imp by blast
qed

text \<open>C7, an instance: the corpus \<^verbatim>\<open>["a.jpg", "/b.jpg"]\<close> and the key \<^verbatim>\<open>"b.jpg"\<close>.\<close>

theorem containsPath_strips_all_leading_separators_witness:
  "containsPath_spec [''a.jpg'', ''/b.jpg''] ''b.jpg''
   \<and> containsPath [''a.jpg'', ''/b.jpg''] ''b.jpg''
   \<and> containsPath [''a.jpg'', ''/b.jpg''] ''/b.jpg''
   \<and> containsPath [''/a.jpg'', ''//b.jpg''] ''b.jpg''"
proof -
  have spec: "containsPath_spec [''a.jpg'', ''/b.jpg''] ''b.jpg''"
    by (simp add: containsPath_spec_def stripOneSeparator_def)
  from containsPath_strips_all_leading_separators [of "[''a.jpg'', ''/b.jpg'']" "''b.jpg''"] spec
  show ?thesis by (simp add: TrimLeft_def)
qed

text \<open>
  C7 as stated fails: the corpus element \<^verbatim>\<open>"//a.jpg"\<close> and the key \<^verbatim>\<open>"a.jpg"\<close> differ
  after a single separator is removed from each, yet the code reports the key as present.
\<close>

theorem containsPath_single_separator_counterexample:
  "containsPath [''//a.jpg''] ''a.jpg'' \<and> \<not> containsPath_spec [''//a.jpg''] ''a.jpg''"
  by (simp add: containsPath_spec_def stripOneSeparator_def TrimLeft_def)

lemma mergeBucketKeys_append:
  "mergeBucketKeys (A @ B) acc = mergeBucketKeys B (mergeBucketKeys A acc)"
  by (induction A arbitrary: acc) simp_all

lemma mergeList_no_preference_snoc:
  "mergeList (A @ [x]) [] =
     (if containsPath A x then mergeList A [] else mergeList A [] @ [x])"
proof -
  have "stripped ` set (mergeBucketKeys A []) = stripped ` set A"
    using mergeBucketKeys_covers [of A "[]"] by simp
  then have "containsPath (mergeBucketKeys A []) x \<longleftrightarrow> containsPath A x"
    by (simp only: containsPath_iff)
  then show ?thesis
    by (simp add: mergeList_def mergeBucketKeys_append)
qed

lemma mergeList_no_preference_length:
  "length (mergeList A []) = card ((\<lambda>k. TrimLeft k ''/'') ` set A)"
proof -
  let ?M = "mergeBucketKeys A []"
  have d: "distinct (map stripped ?M)" by (rule mergeBucketKeys_distinct) simp
  have "stripped ` set ?M = stripped ` set A"
    using mergeBucketKeys_covers [of A "[]"] by simp
  then have "card (stripped ` set A) = card (set (map stripped ?M))" by simp
  also have "\<dots> = length (map stripped ?M)" using d by (rule distinct_card)
  finally show ?thesis by (simp add: mergeList_def)
qed

text \<open>
  C5 (as amended). \<^verbatim>\<open>mergeList(A, [])\<close> equals \<open>A\<close> exactly when no two entries of \<open>A\<close>
  are equal after their leading separators are removed. In general it is built from
  \<open>A\<close> entry by entry: an entry that equals an earlier entry of \<open>A\<close> in that sense is
  dropped, every other entry is appended, so the result is a subsequence of \<open>A\<close>; and
  when \<open>A\<close> has two entries that are equal in that sense, the result is shorter than \<open>A\<close>.
\<close>

theorem mergeList_no_preference:
  "(mergeList A [] = A \<longleftrightarrow> distinct (map (\<lambda>k. TrimLeft k ''/'') A))
   \<and> mergeList [] [] = []
   \<and> mergeList (A @ [x]) [] =
        (if containsPath A x then mergeList A [] else mergeList A [] @ [x])
   \<and> subseq (mergeList A []) A
   \<and> (\<not> distinct (map (\<lambda>k. TrimLeft k ''/'') A) \<longrightarrow> length (mergeList A []) < length A)"
proof (intro conjI)
  show "mergeList A [] = A \<longleftrightarrow> distinct (map stripped A)"
  proof
    assume "mergeList A [] = A"
    moreover have "distinct (map stripped (mergeBucketKeys A []))"
      by (rule mergeBucketKeys_distinct) simp
    ultimately show "distinct (map stripped A)" by (simp add: mergeList_def)
  next
    assume "distinct (map stripped A)"
    from mergeBucketKeys_distinct_bucket [OF this, of "[]"]
    show "mergeList A [] = A" by (simp add: mergeList_def)
  qed
  show "mergeList [] [] = []" by (simp add: mergeList_def)
  show "mergeList (A @ [x]) [] =
        (if containsPath A x then mergeList A [] else mergeList A [] @ [x])"
    by (rule mergeList_no_preference_snoc)
  show "subseq (mergeList A []) A"
  proof -
    from mergeBucketKeys_suffix [of A "[]"] obtain S where
      "mergeBucketKeys A [] = [] @ S" "subseq S A" by blast
    then show ?thesis by (simp add: mergeList_def)
  qed
  show "\<not> distinct (map stripped A) \<longrightarrow> length (mergeList A []) < length A"
  proof
    assume nd: "\<not> distinct (map stripped A)"
    have "card (set (map stripped A)) \<le> length (map stripped A)" by (rule card_length)
    moreover have "card (set (map stripped A)) \<noteq> length (map stripped A)"
      using nd card_distinct by blast
    ultimately have "card (stripped ` set A) < length A" by simp
    then show "length (mergeList A []) < length A"
      by (simp only: mergeList_no_preference_length)
  qed
qed

text \<open>
  C5, two instances: three different keys are returned unchanged; of the keys
  \<^verbatim>\<open>"a.jpg", "b.jpg", "/a.jpg"\<close> the third is dropped.
\<close>

theorem mergeList_no_preference_witness:
  "mergeList [''a.jpg'', ''b.jpg'', ''c.jpg''] [] = [''a.jpg'', ''b.jpg'', ''c.jpg'']
   \<and> \<not> distinct (map (\<lambda>k. TrimLeft k ''/'') [''a.jpg'', ''b.jpg'', ''/a.jpg''])
   \<and> length (mergeList [''a.jpg'', ''b.jpg'', ''/a.jpg''] []) < 3
   \<and> mergeList [''a.jpg'', ''b.jpg'', ''/a.jpg''] [] = mergeList [''a.jpg'', ''b.jpg''] []"
proof -
  have d: "distinct (map (\<lambda>k. TrimLeft k ''/'') [''a.jpg'', ''b.jpg'', ''c.jpg''])"
    by (simp add: TrimLeft_def)
  have nd: "\<not> distinct (map (\<lambda>k. TrimLeft k ''/'') [''a.jpg'', ''b.jpg'', ''/a.jpg''])"
    by (simp add: TrimLeft_def)
  have c: "containsPath [''a.jpg'', ''b.jpg''] ''/a.jpg''"
    by (simp add: TrimLeft_def)
  from mergeList_no_preference [of "[''a.jpg'', ''b.jpg'', ''c.jpg'']"] d
  have one: "mergeList [''a.jpg'', ''b.jpg'', ''c.jpg''] [] = [''a.jpg'', ''b.jpg'', ''c.jpg'']"
    by blast
  from mergeList_no_preference [of "[''a.jpg'', ''b.jpg'', ''/a.jpg'']"] nd
  have "length (mergeList [''a.jpg'', ''b.jpg'', ''/a.jpg''] [])
          < length [''a.jpg'', ''b.jpg'', ''/a.jpg'']" by blast
  then have two: "length (mergeList [''a.jpg'', ''b.jpg'', ''/a.jpg''] []) < 3" by simp
  from mergeList_no_preference [of "[''a.jpg'', ''b.jpg'']" "''/a.jpg''"]
  have "mergeList ([''a.jpg'', ''b.jpg''] @ [''/a.jpg'']) [] =
          (if containsPath [''a.jpg'', ''b.jpg''] ''/a.jpg'' then mergeList [''a.jpg'', ''b.jpg''] []
           else mergeList [''a.jpg'', ''b.jpg''] [] @ [''/a.jpg''])" by blast
  with c have three:
    "mergeList [''a.jpg'', ''b.jpg'', ''/a.jpg''] [] = mergeList [''a.jpg'', ''b.jpg''] []"
    by simp
  from one nd two three show ?thesis by blast
qed

text \<open>
  C5 as stated fails: \<^verbatim>\<open>"a.jpg"\<close> and \<^verbatim>\<open>"/a.jpg"\<close> are two keys of one bucket, and the
  merge with no preference keeps only the first.
\<close>

theorem mergeList_identity_counterexample:
  "mergeList [''a.jpg'', ''/a.jpg''] [] \<noteq> [''a.jpg'', ''/a.jpg'']"
  by (simp add: mergeList_def TrimLeft_def)


lemma mergeList_split:
  "\<exists>S. mergeList A P = filter (containsPath A) P @ S \<and> subseq S A
       \<and> set S \<inter> set P = {}"
proof -
  let ?F = "filter (containsPath A) P"
  from mergeBucketKeys_suffix [of A ?F] obtain S where
    S: "mergeBucketKeys A ?F = ?F @ S" "subseq S A" "\<forall>s \<in> set S. \<not> containsPath ?F s"
    by blast
  have "s \<notin> set P" if "s \<in> set S" for s
  proof
    assume "s \<in> set P"
    from list_emb_set [OF S(2) that] have "s \<in> set A" by blast
    then have "containsPath A s" by (rule containsPath_member)
    with \<open>s \<in> set P\<close> have "s \<in> set ?F" by simp
    then have "containsPath ?F s" by (rule containsPath_member)
    with S(3) that show False by blast
  qed
  then have "set S \<inter> set P = {}" by blast
  moreover have "mergeList A P = ?F @ S"
    using S(1) by (simp add: mergeList_def mergeConfigKeys_filter)
  ultimately show ?thesis using S(2) by blast
qed

lemma mergeList_stripped_subset:
  "stripped ` set (mergeList A P) \<subseteq> stripped ` set A"
proof -
  let ?F = "filter (containsPath A) P"
  have "stripped ` set (mergeList A P) = stripped ` set ?F \<union> stripped ` set A"
    by (simp add: mergeList_def mergeConfigKeys_filter mergeBucketKeys_covers image_Un)
  moreover have "stripped ` set ?F \<subseteq> stripped ` set A"
  proof
    fix x assume "x \<in> stripped ` set ?F"
    then obtain p where "p \<in> set ?F" "x = stripped p" by blast
    then show "x \<in> stripped ` set A" by (simp add: containsPath_iff)
  qed
  ultimately show ?thesis by blast
qed

lemma mergeList_in_bucket: "k \<in> set (mergeList A P) \<Longrightarrow> containsPath A k"
  using mergeList_stripped_subset [of A P] by (auto simp: containsPath_iff)

lemma mergeList_drops: "\<not> containsPath A p \<Longrightarrow> \<not> containsPath (mergeList A P) p"
  using mergeList_stripped_subset [of A P] by (auto simp: containsPath_iff)

text \<open>
  C3 (as amended). The output of \<^verbatim>\<open>mergeList(A, P)\<close> has no two entries equal after
  their leading separators are removed exactly when the entries of \<open>P\<close> that are present
  in \<open>A\<close> have none (the first loop appends each of them, a repeated one again); every
  entry of the output is present in \<open>A\<close> under that comparison; and an entry of \<open>P\<close>
  that is absent from \<open>A\<close> is not in the output.
\<close>

theorem mergeList_entries:
  "(distinct (map (\<lambda>k. TrimLeft k ''/'') (mergeList A P)) \<longleftrightarrow>
      distinct (map (\<lambda>k. TrimLeft k ''/'') (filter (containsPath A) P)))
   \<and> (\<forall>k \<in> set (mergeList A P). containsPath A k)
   \<and> (\<forall>p. \<not> containsPath A p \<longrightarrow>
         p \<notin> set (mergeList A P) \<and> \<not> containsPath (mergeList A P) p)"
proof (intro conjI)
  let ?F = "filter (containsPath A) P"
  have ml: "mergeList A P = mergeBucketKeys A ?F"
    by (simp add: mergeList_def mergeConfigKeys_filter)
  show "distinct (map stripped (mergeList A P)) \<longleftrightarrow> distinct (map stripped ?F)"
    unfolding ml using mergeBucketKeys_distinct mergeBucketKeys_distinct_rev by blast
  show "\<forall>k \<in> set (mergeList A P). containsPath A k"
    using mergeList_in_bucket by blast
  show "\<forall>p. \<not> containsPath A p \<longrightarrow>
         p \<notin> set (mergeList A P) \<and> \<not> containsPath (mergeList A P) p"
    using mergeList_in_bucket mergeList_drops by blast
qed


text \<open>C3, an instance: bucket keys a, b, c and the preference c, x.\<close>

theorem mergeList_entries_witness:
  "containsPath [''a.jpg'', ''b.jpg'', ''c.jpg''] ''c.jpg''
   \<and> \<not> containsPath [''a.jpg'', ''b.jpg'', ''c.jpg''] ''x.jpg''
   \<and> distinct (map (\<lambda>k. TrimLeft k ''/'')
         (mergeList [''a.jpg'', ''b.jpg'', ''c.jpg''] [''c.jpg'', ''x.jpg'']))
   \<and> ''x.jpg'' \<notin> set (mergeList [''a.jpg'', ''b.jpg'', ''c.jpg''] [''c.jpg'', ''x.jpg''])
   \<and> ''c.jpg'' \<in> set (mergeList [''a.jpg'', ''b.jpg'', ''c.jpg''] [''c.jpg'', ''x.jpg''])"
proof -
  let ?A = "[''a.jpg'', ''b.jpg'', ''c.jpg'']"
  let ?P = "[''c.jpg'', ''x.jpg'']"
  have yes: "containsPath ?A ''c.jpg''" by (simp add: TrimLeft_def)
  have no: "\<not> containsPath ?A ''x.jpg''" by (simp add: TrimLeft_def)
  have d: "distinct (map (\<lambda>k. TrimLeft k ''/'') (filter (containsPath ?A) ?P))"
    using yes no by simp
  have m: "''c.jpg'' \<in> set (mergeList ?A ?P)"
    by (simp add: mergeList_def TrimLeft_def)
  note t = mergeList_entries [of ?A ?P]
  from t d have "distinct (map (\<lambda>k. TrimLeft k ''/'') (mergeList ?A ?P))" by blast
  moreover from t no have "''x.jpg'' \<notin> set (mergeList ?A ?P)" by blast
  ultimately show ?thesis using yes no m by blast
qed

text \<open>
  C3 as stated fails: a key listed twice in the preferred list is appended twice by the
  first loop, which checks only that the key is in the bucket.
\<close>

theorem mergeList_duplicates_counterexample:
  "mergeList [''a.jpg''] [''a.jpg'', ''a.jpg''] = [''a.jpg'', ''a.jpg'']
   \<and> \<not> distinct (map (\<lambda>k. TrimLeft k ''/'') (mergeList [''a.jpg''] [''a.jpg'', ''a.jpg'']))"
  by (simp add: mergeList_def TrimLeft_def)

lemma mergeBucketKeys_suffix_distinct:
  "\<exists>S. mergeBucketKeys B acc = acc @ S \<and> subseq S B \<and> (\<forall>s \<in> set S. \<not> containsPath acc s)
       \<and> distinct (map stripped S)"
proof (induction B arbitrary: acc)
  case Nil
  show ?case by simp
next
  case (Cons b B)
  show ?case
  proof (cases "containsPath acc b")
    case True
    from Cons.IH [of acc] obtain S where
      S: "mergeBucketKeys B acc = acc @ S" "subseq S B" "\<forall>s \<in> set S. \<not> containsPath acc s"
         "distinct (map stripped S)"
      by blast
    from S(2) have "subseq S (b # B)" by (rule list_emb_Cons)
    with True S show ?thesis by auto
  next
    case False
    from Cons.IH [of "acc @ [b]"] obtain S where
      S: "mergeBucketKeys B (acc @ [b]) = (acc @ [b]) @ S" "subseq S B"
         "\<forall>s \<in> set S. \<not> containsPath (acc @ [b]) s" "distinct (map stripped S)"
      by blast
    have "mergeBucketKeys (b # B) acc = acc @ (b # S)" using False S(1) by simp
    moreover have "subseq (b # S) (b # B)" using S(2) by simp
    moreover have "\<forall>s \<in> set (b # S). \<not> containsPath acc s"
      using False S(3) by (auto simp: containsPath_append)
    moreover have "distinct (map stripped (b # S))"
    proof -
      have "stripped b \<noteq> stripped s" if "s \<in> set S" for s
      proof
        assume "stripped b = stripped s"
        then have "containsPath (acc @ [b]) s" by (simp add: containsPath_append)
        with S(3) that show False by blast
      qed
      then have "stripped b \<notin> stripped ` set S" by blast
      with S(4) show ?thesis by simp
    qed
    ultimately show ?thesis by blast
  qed
qed

lemma containsPath_filter_bucket:
  assumes "x \<in> set A"
  shows "containsPath (filter (containsPath A) P) x \<longleftrightarrow> containsPath P x"
proof
  assume "containsPath (filter (containsPath A) P) x"
  then obtain p where "p \<in> set (filter (containsPath A) P)" "stripped p = stripped x"
    unfolding containsPath_ex by blast
  then have "p \<in> set P" "stripped p = stripped x" by simp_all
  then show "containsPath P x" unfolding containsPath_ex by blast
next
  assume "containsPath P x"
  then obtain p where p: "p \<in> set P" "stripped p = stripped x"
    unfolding containsPath_ex by blast
  with assms have "containsPath A p" unfolding containsPath_ex by metis
  with p(1) have "p \<in> set (filter (containsPath A) P)" by simp
  with p(2) show "containsPath (filter (containsPath A) P) x" unfolding containsPath_ex by blast
qed

lemma mergeList_shape:
  "\<exists>S. mergeList A P = filter (containsPath A) P @ S \<and> subseq S A
       \<and> distinct (map stripped S) \<and> (\<forall>s \<in> set S. \<not> containsPath P s)"
proof -
  let ?F = "filter (containsPath A) P"
  from mergeBucketKeys_suffix_distinct [of A ?F] obtain S where
    S: "mergeBucketKeys A ?F = ?F @ S" "subseq S A" "\<forall>s \<in> set S. \<not> containsPath ?F s"
       "distinct (map stripped S)"
    by blast
  have "\<not> containsPath P s" if "s \<in> set S" for s
  proof -
    from list_emb_set [OF S(2) that] have "s \<in> set A" by blast
    from containsPath_filter_bucket [OF this, of P] S(3) that show ?thesis by blast
  qed
  moreover have "mergeList A P = ?F @ S"
    using S(1) by (simp add: mergeList_def mergeConfigKeys_filter)
  ultimately show ?thesis using S(2,4) by blast
qed

lemma mergeList_distinct_bucket:
  assumes "distinct (map stripped A)"
  shows "mergeList A P = filter (containsPath A) P @ filter (\<lambda>a. \<not> containsPath P a) A"
proof -
  let ?F = "filter (containsPath A) P"
  have "filter (\<lambda>b. \<not> containsPath ?F b) A = filter (\<lambda>a. \<not> containsPath P a) A"
    by (rule filter_cong [OF refl]) (simp add: containsPath_filter_bucket)
  with mergeBucketKeys_distinct_bucket [OF assms, of ?F]
  show ?thesis by (simp only: mergeList_def mergeConfigKeys_filter append_Nil)
qed

text \<open>
  C4. The output of \<^verbatim>\<open>mergeList(A, P)\<close> is the entries of \<open>P\<close> that are present in \<open>A\<close>,
  in the order of \<open>P\<close>, followed by entries of \<open>A\<close> that \<open>P\<close> does not contain, which form
  a subsequence of \<open>A\<close> without repeats; so every entry of \<open>P\<close> that is present in \<open>A\<close> is
  in the output, every entry that is in \<open>P\<close> stands before every entry that is not, and
  the entries not in \<open>P\<close> keep the order they have in \<open>A\<close>. Every entry of \<open>A\<close> that \<open>P\<close>
  does not contain is found in the output; and when the entries of \<open>A\<close> are pairwise
  different, the second part is exactly the entries of \<open>A\<close> that \<open>P\<close> does not contain.
\<close>

theorem mergeList_order:
  "(\<exists>S. mergeList A P = filter (containsPath A) P @ S \<and> subseq S A
         \<and> distinct (map (\<lambda>k. TrimLeft k ''/'') S) \<and> (\<forall>s \<in> set S. \<not> containsPath P s))
   \<and> (\<forall>p \<in> set P. containsPath A p \<longrightarrow> p \<in> set (mergeList A P))
   \<and> (\<forall>i j. i < length (mergeList A P) \<and> j < length (mergeList A P)
           \<and> mergeList A P ! i \<in> set P \<and> mergeList A P ! j \<notin> set P \<longrightarrow> i < j)
   \<and> subseq (filter (\<lambda>k. k \<notin> set P) (mergeList A P)) A
   \<and> (\<forall>a \<in> set A. \<not> containsPath P a \<longrightarrow> containsPath (mergeList A P) a)
   \<and> (distinct (map (\<lambda>k. TrimLeft k ''/'') A) \<longrightarrow>
        filter (\<lambda>k. k \<notin> set P) (mergeList A P) = filter (\<lambda>a. \<not> containsPath P a) A)
   \<and> (distinct (map (\<lambda>k. TrimLeft k ''/'') A) \<longrightarrow>
        mergeList A P = filter (containsPath A) P @ filter (\<lambda>a. \<not> containsPath P a) A)"
proof (intro conjI)
  show "\<exists>S. mergeList A P = filter (containsPath A) P @ S \<and> subseq S A
         \<and> distinct (map stripped S) \<and> (\<forall>s \<in> set S. \<not> containsPath P s)"
    by (rule mergeList_shape)
  show "\<forall>p \<in> set P. containsPath A p \<longrightarrow> p \<in> set (mergeList A P)"
    using mergeList_shape [of A P] by auto
  show "distinct (map stripped A) \<longrightarrow>
        mergeList A P = filter (containsPath A) P @ filter (\<lambda>a. \<not> containsPath P a) A"
    using mergeList_distinct_bucket by blast
  let ?F = "filter (containsPath A) P"
  let ?M = "mergeList A P"
  from mergeList_split [of A P] obtain S where
    S: "?M = ?F @ S" "subseq S A" "set S \<inter> set P = {}"
    by blast
  have FP: "set ?F \<subseteq> set P" by simp
  show "\<forall>i j. i < length ?M \<and> j < length ?M \<and> ?M ! i \<in> set P \<and> ?M ! j \<notin> set P \<longrightarrow> i < j"
  proof (intro allI impI, elim conjE)
    fix i j
    assume i: "i < length ?M" and j: "j < length ?M"
      and pi: "?M ! i \<in> set P" and pj: "?M ! j \<notin> set P"
    have "i < length ?F"
    proof (rule ccontr)
      assume n: "\<not> i < length ?F"
      from i S(1) have "i < length (?F @ S)" by simp
      with n have "i - length ?F < length S" by simp
      then have "S ! (i - length ?F) \<in> set S" by (rule nth_mem)
      moreover from n have "(?F @ S) ! i = S ! (i - length ?F)" by (simp only: nth_append if_False)
      ultimately have "?M ! i \<in> set S" using S(1) by simp
      with pi S(3) show False by blast
    qed
    moreover have "\<not> j < length ?F"
    proof
      assume l: "j < length ?F"
      then have "?F ! j \<in> set ?F" by (rule nth_mem)
      moreover from l have "(?F @ S) ! j = ?F ! j" by (simp only: nth_append if_True)
      ultimately have "?M ! j \<in> set ?F" using S(1) by simp
      with FP pj show False by blast
    qed
    ultimately show "i < j" by simp
  qed
  have fF: "filter (\<lambda>k. k \<notin> set P) ?F = []"
    unfolding filter_empty_conv using FP by blast
  have fS': "filter (\<lambda>k. k \<notin> set P) S = S"
    unfolding filter_id_conv using S(3) by blast
  have fS: "filter (\<lambda>k. k \<notin> set P) ?M = S"
    by (simp only: S(1) filter_append fF fS' append_Nil)
  with S(2) show "subseq (filter (\<lambda>k. k \<notin> set P) ?M) A" by simp
  show "\<forall>a \<in> set A. \<not> containsPath P a \<longrightarrow> containsPath ?M a"
  proof (intro ballI impI)
    fix a assume "a \<in> set A"
    have "stripped ` set ?M = stripped ` (set ?F \<union> set A)"
      by (simp add: mergeList_def mergeConfigKeys_filter mergeBucketKeys_covers)
    with \<open>a \<in> set A\<close> have "stripped a \<in> stripped ` set ?M" by blast
    then show "containsPath ?M a" by (simp only: containsPath_iff)
  qed
  show "distinct (map stripped A) \<longrightarrow>
        filter (\<lambda>k. k \<notin> set P) ?M = filter (\<lambda>a. \<not> containsPath P a) A"
  proof
    assume d: "distinct (map stripped A)"
    have eq: "filter (\<lambda>b. \<not> containsPath ?F b) A = filter (\<lambda>a. \<not> containsPath P a) A"
    proof (rule filter_cong [OF refl])
      fix x assume xA: "x \<in> set A"
      have "containsPath ?F x \<longleftrightarrow> containsPath P x"
      proof
        assume "containsPath ?F x"
        then obtain p where "p \<in> set ?F" "stripped p = stripped x"
          unfolding containsPath_ex by blast
        then show "containsPath P x" unfolding containsPath_ex by auto
      next
        assume "containsPath P x"
        then obtain p where p: "p \<in> set P" "stripped p = stripped x"
          unfolding containsPath_ex by blast
        with xA have "containsPath A p" unfolding containsPath_ex by metis
        with p(1) have "p \<in> set ?F" by simp
        with p(2) show "containsPath ?F x" unfolding containsPath_ex by blast
      qed
      then show "(\<not> containsPath ?F x) = (\<not> containsPath P x)" by simp
    qed
    from mergeBucketKeys_distinct_bucket [OF d, of ?F]
    have "?M = ?F @ filter (\<lambda>a. \<not> containsPath P a) A"
      by (simp only: mergeList_def mergeConfigKeys_filter eq append_Nil)
    with S(1) have "S = filter (\<lambda>a. \<not> containsPath P a) A" by simp
    with fS show "filter (\<lambda>k. k \<notin> set P) ?M = filter (\<lambda>a. \<not> containsPath P a) A"
      by simp
  qed
qed

text \<open>C4, an instance: bucket keys a, b, c, d and the preference d, x, b.\<close>

theorem mergeList_order_witness:
  "mergeList [''a.jpg'', ''b.jpg'', ''c.jpg'', ''d.jpg''] [''d.jpg'', ''x.jpg'', ''b.jpg'']
     = [''d.jpg'', ''b.jpg'', ''a.jpg'', ''c.jpg'']
   \<and> ''d.jpg'' \<in> set (mergeList [''a.jpg'', ''b.jpg'', ''c.jpg'', ''d.jpg''] [''d.jpg'', ''x.jpg'', ''b.jpg''])
   \<and> filter (\<lambda>k. k \<notin> set [''d.jpg'', ''x.jpg'', ''b.jpg''])
        (mergeList [''a.jpg'', ''b.jpg'', ''c.jpg'', ''d.jpg''] [''d.jpg'', ''x.jpg'', ''b.jpg''])
     = [''a.jpg'', ''c.jpg'']
   \<and> subseq [''a.jpg'', ''c.jpg''] [''a.jpg'', ''b.jpg'', ''c.jpg'', ''d.jpg'']"
proof -
  let ?A = "[''a.jpg'', ''b.jpg'', ''c.jpg'', ''d.jpg'']"
  let ?P = "[''d.jpg'', ''x.jpg'', ''b.jpg'']"
  have d: "distinct (map (\<lambda>k. TrimLeft k ''/'') ?A)" by (simp add: TrimLeft_def)
  have F: "filter (containsPath ?A) ?P = [''d.jpg'', ''b.jpg'']"
    by (simp add: TrimLeft_def)
  have f: "filter (\<lambda>a. \<not> containsPath ?P a) ?A = [''a.jpg'', ''c.jpg'']"
    by (simp add: TrimLeft_def)
  have c: "containsPath ?A ''d.jpg''" by (simp add: TrimLeft_def)
  note t = mergeList_order [of ?A ?P]
  from t d have "mergeList ?A ?P = filter (containsPath ?A) ?P @ filter (\<lambda>a. \<not> containsPath ?P a) ?A"
    by blast
  with F f have m: "mergeList ?A ?P = [''d.jpg'', ''b.jpg'', ''a.jpg'', ''c.jpg'']" by simp
  from t have "\<forall>p \<in> set ?P. containsPath ?A p \<longrightarrow> p \<in> set (mergeList ?A ?P)" by blast
  with c have i: "''d.jpg'' \<in> set (mergeList ?A ?P)" by simp
  from t d have "filter (\<lambda>k. k \<notin> set ?P) (mergeList ?A ?P) = filter (\<lambda>a. \<not> containsPath ?P a) ?A"
    by blast
  with f have e: "filter (\<lambda>k. k \<notin> set ?P) (mergeList ?A ?P) = [''a.jpg'', ''c.jpg'']" by simp
  from t have "subseq (filter (\<lambda>k. k \<notin> set ?P) (mergeList ?A ?P)) ?A" by blast
  with e have "subseq [''a.jpg'', ''c.jpg''] ?A" by simp
  with m i e show ?thesis by blast
qed

section \<open>Claims about the caches, the constructors and the resolver\<close>

lemma fetchAndStoreKeys_failure:
  "GetAllObjects env a = (objects, Some err) \<Longrightarrow>
   fetchAndStoreKeys env a = Inr (([], Some err), a)"
  by (simp add: fetchAndStoreKeys_def GetAllObjectKeysFromBucket_def)

text \<open>
  C9. When the key cache slot is empty and the bucket listing fails (the service cannot
  be had, or \<^verbatim>\<open>ListObjects\<close> returns an error), \<^verbatim>\<open>GetAllObjectKeys\<close> returns that error
  with no keys, and the album is the one it was called on: nothing is stored in the slot
  and the time of the last refresh is not changed.
\<close>

theorem GetAllObjectKeys_fetch_failure:
  assumes "KeyCache a = None"
    and "GetAllObjects env a = (objects, Some err)"
  shows "GetAllObjectKeys env a = Inr (([], Some err), a)"
  using assms by (simp add: GetAllObjectKeys_def fetchAndStoreKeys_failure)

text \<open>C9, an instance: a fresh album and a store that answers the listing with status 503.\<close>

theorem GetAllObjectKeys_fetch_failure_witness:
  "GetAllObjectKeys
     \<lparr>S3ServiceError = None,
      ListObjects = (\<lambda>prefix. Inl (RequestFailure 503)),
      GetObject = (\<lambda>key. Inl (RequestFailure 404)),
      YamlUnmarshal = (\<lambda>data. (([], [], []), None)),
      ResolveReference = (\<lambda>base ref. Some (base @ ref)),
      GetPhotoForKey = (\<lambda>key. key),
      Now = 1700000000000000000\<rparr>
     \<lparr>Path = ''holiday/'', BucketPrefix = ''holiday/'', AuthUser = [], AuthPass = [],
      MetaTitle = [], AlbumTitle = [], InIndex = True, KeyCache = None,
      OrderingCache = None, LastKeyCacheUpdate = zeroTime, LastOrderingCacheUpdate = zeroTime\<rparr>
   = Inr (([], Some (RequestFailure 503)),
     \<lparr>Path = ''holiday/'', BucketPrefix = ''holiday/'', AuthUser = [], AuthPass = [],
      MetaTitle = [], AlbumTitle = [], InIndex = True, KeyCache = None,
      OrderingCache = None, LastKeyCacheUpdate = zeroTime, LastOrderingCacheUpdate = zeroTime\<rparr>)"
  by (rule GetAllObjectKeys_fetch_failure [where objects = "[]"]) (simp_all add: GetAllObjects_def)

lemma Canonicalize_Path:
  "Path a \<noteq> [] \<Longrightarrow>
   \<exists>a'. Canonicalize a = Inr a' \<and> Path a' \<noteq> [] \<and> last (Path a') = CHR ''/''
        \<and> Path a' = (if last (Path a) = CHR ''/'' then Path a else Path a @ ''/'')"
  by (simp add: Canonicalize_def)

lemma IsValid_Path: "IsValid a = None \<Longrightarrow> Path a \<noteq> []"
  by (simp add: IsValid_def split: if_splits)

lemma NewAlbum_Path:
  "NewAlbum path bucketPrefix authUser authPass metaTitle albumTitle = Inr (Inr a) \<Longrightarrow>
   Path a \<noteq> [] \<and> last (Path a) = CHR ''/''"
  by (auto simp: NewAlbum_def Let_def Canonicalize_def IsValid_def split: option.splits if_splits)

lemma NewAlbum_no_panic:
  "NewAlbum path bucketPrefix authUser authPass metaTitle albumTitle \<noteq> Inl p"
  by (auto simp: NewAlbum_def Let_def Canonicalize_def IsValid_def split: option.splits if_splits)

lemma NewAlbumFromConfig_Path:
  "NewAlbumFromConfig mapTo = Inr (Inr a) \<Longrightarrow> Path a \<noteq> [] \<and> last (Path a) = CHR ''/''"
  by (auto simp: NewAlbumFromConfig_def Let_def Canonicalize_def IsValid_def
      split: option.splits if_splits sum.splits)

lemma NewAlbumFromConfig_no_panic: "NewAlbumFromConfig mapTo \<noteq> Inl p"
  by (auto simp: NewAlbumFromConfig_def Let_def Canonicalize_def IsValid_def
      split: option.splits if_splits sum.splits)

lemma fetchAndStoreKeys_Path: "fetchAndStoreKeys env a = Inr (r, a') \<Longrightarrow> Path a' = Path a"
  by (auto simp: fetchAndStoreKeys_def split: sum.splits prod.splits if_splits)

lemma GetAllObjectKeys_Path: "GetAllObjectKeys env a = Inr (r, a') \<Longrightarrow> Path a' = Path a"
  by (auto simp: GetAllObjectKeys_def split: option.splits sum.splits prod.splits if_splits
      dest: fetchAndStoreKeys_Path)

lemma fetchAndStoreOrdering_Path:
  "fetchAndStoreOrdering env a = Inr (r, a') \<Longrightarrow> Path a' = Path a"
  by (auto simp: fetchAndStoreOrdering_def split: sum.splits prod.splits if_splits)

lemma GetAlbumOrderingConfiguration_Path:
  "GetAlbumOrderingConfiguration env a = Inr (r, a') \<Longrightarrow> Path a' = Path a"
  by (auto simp: GetAlbumOrderingConfiguration_def
      split: option.splits sum.splits prod.splits if_splits
      dest: fetchAndStoreOrdering_Path)

lemma GetOrderedPhotos_Path: "GetOrderedPhotos env a = Inr (r, a') \<Longrightarrow> Path a' = Path a"
  by (auto simp: GetOrderedPhotos_def Let_def
      split: option.splits sum.splits prod.splits if_splits
      dest!: GetAlbumOrderingConfiguration_Path GetAllObjectKeys_Path)


text \<open>
  C10. An album returned by \<^verbatim>\<open>NewAlbum\<close> or \<^verbatim>\<open>NewAlbumFromConfig\<close> has a non-empty
  \<open>Path\<close> whose last character is the separator; neither constructor panics, because
  validation rejects the empty path before \<^verbatim>\<open>Canonicalize\<close> indexes it;
  \<^verbatim>\<open>Canonicalize\<close> appends the separator exactly when it is missing; and the operations
  that change an album (the two cache reads and \<^verbatim>\<open>GetOrderedPhotos\<close>) leave \<open>Path\<close> as
  it was.
\<close>

theorem Album_Path_ends_with_separator:
  "(NewAlbum path bucketPrefix authUser authPass metaTitle albumTitle = Inr (Inr a) \<longrightarrow>
      Path a \<noteq> [] \<and> last (Path a) = CHR ''/'')
   \<and> (NewAlbumFromConfig mapTo = Inr (Inr b) \<longrightarrow> Path b \<noteq> [] \<and> last (Path b) = CHR ''/'')
   \<and> NewAlbum path bucketPrefix authUser authPass metaTitle albumTitle \<noteq> Inl p
   \<and> NewAlbumFromConfig mapTo \<noteq> Inl p
   \<and> (Canonicalize c = Inr c0 \<longrightarrow>
        Path c0 = (if last (Path c) = CHR ''/'' then Path c else Path c @ ''/''))
   \<and> (GetAllObjectKeys env c = Inr (r1, c1) \<longrightarrow> Path c1 = Path c)
   \<and> (GetAlbumOrderingConfiguration env c = Inr (r2, c2) \<longrightarrow> Path c2 = Path c)
   \<and> (GetOrderedPhotos env c = Inr (r3, c3) \<longrightarrow> Path c3 = Path c)"
proof (intro conjI impI)
  assume "NewAlbum path bucketPrefix authUser authPass metaTitle albumTitle = Inr (Inr a)"
  then show "Path a \<noteq> []" and "last (Path a) = CHR ''/''"
    using NewAlbum_Path by blast+
next
  assume "NewAlbumFromConfig mapTo = Inr (Inr b)"
  then show "Path b \<noteq> []" and "last (Path b) = CHR ''/''"
    using NewAlbumFromConfig_Path by blast+
next
  show "NewAlbum path bucketPrefix authUser authPass metaTitle albumTitle \<noteq> Inl p"
    by (rule NewAlbum_no_panic)
  show "NewAlbumFromConfig mapTo \<noteq> Inl p"
    by (rule NewAlbumFromConfig_no_panic)
next
  assume "Canonicalize c = Inr c0"
  then show "Path c0 = (if last (Path c) = CHR ''/'' then Path c else Path c @ ''/'')"
    by (auto simp: Canonicalize_def split: if_splits)
next
  assume "GetAllObjectKeys env c = Inr (r1, c1)"
  then show "Path c1 = Path c" by (rule GetAllObjectKeys_Path)
next
  assume "GetAlbumOrderingConfiguration env c = Inr (r2, c2)"
  then show "Path c2 = Path c" by (rule GetAlbumOrderingConfiguration_Path)
next
  assume "GetOrderedPhotos env c = Inr (r3, c3)"
  then show "Path c3 = Path c" by (rule GetOrderedPhotos_Path)
qed

text \<open>
  C10, an instance: \<^verbatim>\<open>NewAlbum\<close> with the path \<^verbatim>\<open>"holiday"\<close>, and \<^verbatim>\<open>NewAlbumFromConfig\<close>
  with a section that sets the path \<^verbatim>\<open>"trip"\<close>.
\<close>

theorem Album_Path_ends_with_separator_witness:
  "NewAlbum ''holiday'' ''holiday/'' [] [] ''Holiday'' ''Holiday''
     = Inr (Inr \<lparr>Path = ''holiday/'', BucketPrefix = ''holiday/'', AuthUser = [], AuthPass = [],
                  MetaTitle = ''Holiday'', AlbumTitle = ''Holiday'', InIndex = True,
                  KeyCache = None, OrderingCache = None,
                  LastKeyCacheUpdate = zeroTime, LastOrderingCacheUpdate = zeroTime\<rparr>)
   \<and> last ''holiday/'' = CHR ''/''
   \<and> NewAlbumFromConfig (\<lambda>album. Inr (album\<lparr>Path := ''trip'', InIndex := False\<rparr>))
     = Inr (Inr \<lparr>Path = ''trip/'', BucketPrefix = [], AuthUser = [], AuthPass = [],
                  MetaTitle = [], AlbumTitle = [], InIndex = False,
                  KeyCache = None, OrderingCache = None,
                  LastKeyCacheUpdate = zeroTime, LastOrderingCacheUpdate = zeroTime\<rparr>)
   \<and> last ''trip/'' = CHR ''/''"
proof -
  let ?a = "\<lparr>Path = ''holiday/'', BucketPrefix = ''holiday/'', AuthUser = [], AuthPass = [],
                  MetaTitle = ''Holiday'', AlbumTitle = ''Holiday'', InIndex = True,
                  KeyCache = None, OrderingCache = None,
                  LastKeyCacheUpdate = zeroTime, LastOrderingCacheUpdate = zeroTime\<rparr>"
  let ?b = "\<lparr>Path = ''trip/'', BucketPrefix = [], AuthUser = [], AuthPass = [],
                  MetaTitle = [], AlbumTitle = [], InIndex = False,
                  KeyCache = None, OrderingCache = None,
                  LastKeyCacheUpdate = zeroTime, LastOrderingCacheUpdate = zeroTime\<rparr>"
  let ?mapTo = "\<lambda>album. Inr (album\<lparr>Path := ''trip'', InIndex := False\<rparr>) :: error + Album"
  have na: "NewAlbum ''holiday'' ''holiday/'' [] [] ''Holiday'' ''Holiday'' = Inr (Inr ?a)"
    by (simp add: NewAlbum_def IsValid_def HasOwnAuth_def Canonicalize_def)
  have nb: "NewAlbumFromConfig ?mapTo = Inr (Inr ?b)"
    by (simp add: NewAlbumFromConfig_def IsValid_def HasOwnAuth_def Canonicalize_def)
  from Album_Path_ends_with_separator
         [of "''holiday''" "''holiday/''" "[]" "[]" "''Holiday''" "''Holiday''" ?a ?mapTo ?b]
       na nb
  show ?thesis by simp
qed

lemma GetAlbumOrderingConfiguration_error_zero:
  "GetAlbumOrderingConfiguration env a = Inr ((cfg, Some err), a1) \<Longrightarrow> cfg = zeroConfiguration"
  by (auto simp: GetAlbumOrderingConfiguration_def
      split: option.splits sum.splits prod.splits if_splits)

lemma firstKey_empty: "firstKey [] = Inl IndexOutOfRange"
  by (simp add: firstKey_def)

text \<open>
  C1 (what the code does). When the key listing succeeds and the cleaned key list is
  empty, \<^verbatim>\<open>GetOrderedPhotos\<close> does not return an error: both branches that choose the
  cover reach \<^verbatim>\<open>cleanImageKeys[0]\<close>, and the call panics with an index out of range.
\<close>

theorem GetOrderedPhotos_empty_album_panics:
  assumes "GetAlbumOrderingConfiguration env a = Inr ((cfg, cfgErr), a1)"
    and "GetAllObjectKeys env a1 = Inr ((imageKeys, None), a2)"
    and "cleanKeys imageKeys [] = []"
  shows "GetOrderedPhotos env a = Inl IndexOutOfRange"
  using assms by (simp add: GetOrderedPhotos_def Let_def coverKey_def firstKey_empty)

text \<open>C1, an instance: the album holds only its ordering document.\<close>

theorem GetOrderedPhotos_empty_album_panics_witness:
  "GetOrderedPhotos
       \<lparr>S3ServiceError = None,
        ListObjects = (\<lambda>prefix. Inr [''holiday/'', ''holiday/ordering.yaml'']),
        GetObject = (\<lambda>key. Inr ''cover: a.jpg''),
        YamlUnmarshal = (\<lambda>data. ((''a.jpg'', [], []), None)),
        ResolveReference = (\<lambda>base ref. Some (base @ ref)),
        GetPhotoForKey = (\<lambda>key. key),
        Now = 1700000000000000000\<rparr>
       \<lparr>Path = ''holiday/'', BucketPrefix = ''holiday/'', AuthUser = [], AuthPass = [],
        MetaTitle = [], AlbumTitle = [], InIndex = True, KeyCache = None,
        OrderingCache = None, LastKeyCacheUpdate = zeroTime, LastOrderingCacheUpdate = zeroTime\<rparr>
     = Inl IndexOutOfRange"
proof -
  let ?env = "\<lparr>S3ServiceError = None,
        ListObjects = (\<lambda>prefix. Inr [''holiday/'', ''holiday/ordering.yaml'']),
        GetObject = (\<lambda>key. Inr ''cover: a.jpg''),
        YamlUnmarshal = (\<lambda>data. ((''a.jpg'', [], []), None)),
        ResolveReference = (\<lambda>base ref. Some (base @ ref)),
        GetPhotoForKey = (\<lambda>key. key),
        Now = 1700000000000000000\<rparr> :: string Env"
  let ?a = "\<lparr>Path = ''holiday/'', BucketPrefix = ''holiday/'', AuthUser = [], AuthPass = [],
        MetaTitle = [], AlbumTitle = [], InIndex = True, KeyCache = None,
        OrderingCache = None, LastKeyCacheUpdate = zeroTime, LastOrderingCacheUpdate = zeroTime\<rparr>"
  let ?cfg = "\<lparr>Cover = ''holiday/a.jpg'', Thumbnails = [], Ordering = [],
        negativeCacheThis = False\<rparr>"
  let ?a1 = "?a\<lparr>OrderingCache := Some ?cfg, LastOrderingCacheUpdate := 1700000000000000000\<rparr>"
  let ?a2 = "?a1\<lparr>KeyCache := Some [''holiday/ordering.yaml''],
                  LastKeyCacheUpdate := 1700000000000000000\<rparr>"
  have cfg: "GetAlbumOrderingConfiguration ?env ?a = Inr ((?cfg, None), ?a1)"
    by (simp add: GetAlbumOrderingConfiguration_def fetchAndStoreOrdering_def
        GetAlbumOrderingConfigurationFromS3AndPreprocess_def preprocess_def)
  have keys: "GetAllObjectKeys ?env ?a1 = Inr (([''holiday/ordering.yaml''], None), ?a2)"
    by (simp add: GetAllObjectKeys_def fetchAndStoreKeys_def GetAllObjectKeysFromBucket_def
        GetAllObjects_def)
  have clean: "cleanKeys [''holiday/ordering.yaml''] [] = []"
    by (simp add: HasSuffix_def ORDERING_YAML_NAME_def)
  from GetOrderedPhotos_empty_album_panics [OF cfg keys clean]
  show ?thesis .
qed

lemma appendResolved_result:
  "appendResolved res vs field = Inr out \<Longrightarrow> out = field @ map (\<lambda>v. the (res v)) vs"
proof (induction vs arbitrary: field)
  case Nil
  then show ?case by simp
next
  case (Cons v vs)
  from Cons.prems obtain fullPath where r: "res v = Some fullPath"
    and rest: "appendResolved res vs (field @ [fullPath]) = Inr out"
    by (auto split: option.splits)
  from Cons.IH [OF rest] r show ?case by simp
qed

lemma appendResolved_defined:
  "appendResolved res vs field = Inr out \<Longrightarrow> v \<in> set vs \<Longrightarrow> \<exists>fullPath. res v = Some fullPath"
proof (induction vs arbitrary: field)
  case Nil
  then show ?case by simp
next
  case (Cons w ws)
  from Cons.prems(1) obtain fullPath where r: "res w = Some fullPath"
    and rest: "appendResolved res ws (field @ [fullPath]) = Inr out"
    by (auto split: option.splits)
  from Cons.prems(2) have "v = w \<or> v \<in> set ws" by simp
  then show ?case
  proof
    assume "v = w"
    with r show ?thesis by simp
  next
    assume "v \<in> set ws"
    with Cons.IH [OF rest] show ?thesis by simp
  qed
qed

text \<open>
  C2 (what the code does). After the preprocessing of a parsed document, the thumbnails
  field is the configured keys followed by their resolved forms, and so is the ordering
  field: the loops append to the field they walk, so the relative keys stay and each
  field has twice the configured number of entries. Every configured key had a resolved
  form, or the call would have panicked.
\<close>

theorem preprocess_keeps_relative_keys:
  assumes "preprocess env a cfg = Inr cfg'"
  shows "Thumbnails cfg' =
           Thumbnails cfg @ map (\<lambda>v. the (ResolveReference env (Path a) v)) (Thumbnails cfg)
       \<and> Ordering cfg' =
           Ordering cfg @ map (\<lambda>v. the (ResolveReference env (Path a) v)) (Ordering cfg)
       \<and> list_all (\<lambda>v. ResolveReference env (Path a) v \<noteq> None) (Thumbnails cfg @ Ordering cfg)"
proof (intro conjI)
  show "Thumbnails cfg' =
           Thumbnails cfg @ map (\<lambda>v. the (ResolveReference env (Path a) v)) (Thumbnails cfg)"
    using assms
    by (auto simp: preprocess_def split: sum.splits option.splits if_splits
        dest!: appendResolved_result)
  show "Ordering cfg' =
           Ordering cfg @ map (\<lambda>v. the (ResolveReference env (Path a) v)) (Ordering cfg)"
    using assms
    by (auto simp: preprocess_def split: sum.splits option.splits if_splits
        dest!: appendResolved_result)
  have "ResolveReference env (Path a) v \<noteq> None" if "v \<in> set (Thumbnails cfg)" for v
    using assms that
    by (auto simp: preprocess_def split: sum.splits option.splits if_splits
        dest: appendResolved_defined)
  moreover have "ResolveReference env (Path a) v \<noteq> None" if "v \<in> set (Ordering cfg)" for v
    using assms that
    by (auto simp: preprocess_def split: sum.splits option.splits if_splits
        dest: appendResolved_defined)
  ultimately show
    "list_all (\<lambda>v. ResolveReference env (Path a) v \<noteq> None) (Thumbnails cfg @ Ordering cfg)"
    by (auto simp: list_all_iff)
qed

text \<open>
  C2, an instance: a document with the thumbnail \<^verbatim>\<open>a.jpg\<close> and the ordering
  \<^verbatim>\<open>b.jpg, a.jpg\<close> for the album path \<^verbatim>\<open>holiday/\<close>.
\<close>

theorem preprocess_keeps_relative_keys_witness:
  "\<exists>cfg'.
     GetAlbumOrderingConfigurationFromS3AndPreprocess
       \<lparr>S3ServiceError = None,
        ListObjects = (\<lambda>prefix. Inr [''holiday/a.jpg'', ''holiday/b.jpg'', ''holiday/ordering.yaml'']),
        GetObject = (\<lambda>key. Inr ''thumbnails: [a.jpg]''),
        YamlUnmarshal = (\<lambda>data. (([], [''a.jpg''], [''b.jpg'', ''a.jpg'']), None)),
        ResolveReference = (\<lambda>base ref. Some (base @ ref)),
        GetPhotoForKey = (\<lambda>key. key),
        Now = 1700000000000000000\<rparr>
       \<lparr>Path = ''holiday/'', BucketPrefix = ''holiday/'', AuthUser = [], AuthPass = [],
        MetaTitle = [], AlbumTitle = [], InIndex = True, KeyCache = None,
        OrderingCache = None, LastKeyCacheUpdate = zeroTime, LastOrderingCacheUpdate = zeroTime\<rparr>
     = Inr (cfg', None)
     \<and> Thumbnails cfg' = [''a.jpg'', ''holiday/a.jpg'']
     \<and> Ordering cfg' = [''b.jpg'', ''a.jpg'', ''holiday/b.jpg'', ''holiday/a.jpg'']"
proof -
  let ?env = "\<lparr>S3ServiceError = None,
        ListObjects = (\<lambda>prefix. Inr [''holiday/a.jpg'', ''holiday/b.jpg'', ''holiday/ordering.yaml'']),
        GetObject = (\<lambda>key. Inr ''thumbnails: [a.jpg]''),
        YamlUnmarshal = (\<lambda>data. (([], [''a.jpg''], [''b.jpg'', ''a.jpg'']), None)),
        ResolveReference = (\<lambda>base ref. Some (base @ ref)),
        GetPhotoForKey = (\<lambda>key. key),
        Now = 1700000000000000000\<rparr> :: string Env"
  let ?a = "\<lparr>Path = ''holiday/'', BucketPrefix = ''holiday/'', AuthUser = [], AuthPass = [],
        MetaTitle = [], AlbumTitle = [], InIndex = True, KeyCache = None,
        OrderingCache = None, LastKeyCacheUpdate = zeroTime, LastOrderingCacheUpdate = zeroTime\<rparr>"
  let ?parsed = "\<lparr>Cover = [], Thumbnails = [''a.jpg''], Ordering = [''b.jpg'', ''a.jpg''],
        negativeCacheThis = False\<rparr>"
  obtain cfg' where p: "preprocess ?env ?a ?parsed = Inr cfg'"
    by (simp add: preprocess_def)
  from preprocess_keeps_relative_keys [OF p]
  have "Thumbnails cfg' = [''a.jpg'', ''holiday/a.jpg'']"
    and "Ordering cfg' = [''b.jpg'', ''a.jpg'', ''holiday/b.jpg'', ''holiday/a.jpg'']"
    by simp_all
  moreover from p have "GetAlbumOrderingConfigurationFromS3AndPreprocess ?env ?a = Inr (cfg', None)"
    by (simp add: GetAlbumOrderingConfigurationFromS3AndPreprocess_def)
  ultimately show ?thesis by blast
qed

text \<open>
  C6 (what the code does). With no thumbnails configured, the thumbnail keys are the up
  to five clean keys after the first when there are at least two clean keys; a clean
  key list of one entry is returned as it is, so the only thumbnail is the cover.
\<close>

theorem thumbKeys_without_configuration:
  assumes "Thumbnails cfg = []"
  shows "thumbKeys cfg clean = (if length clean \<le> 1 then clean else take 5 (drop 1 clean))"
  using assms by (auto simp: thumbKeys_def Let_def drop_take)

text \<open>C6, an instance: one image, no ordering document.\<close>

theorem thumbKeys_without_configuration_witness:
  "thumbKeys \<lparr>Cover = [], Thumbnails = [], Ordering = [], negativeCacheThis = True\<rparr>
     [''holiday/a.jpg''] = [''holiday/a.jpg'']
   \<and> coverKey \<lparr>Cover = [], Thumbnails = [], Ordering = [], negativeCacheThis = True\<rparr>
     [''holiday/a.jpg''] = Inr ''holiday/a.jpg''"
  using thumbKeys_without_configuration
          [of "\<lparr>Cover = [], Thumbnails = [], Ordering = [], negativeCacheThis = True\<rparr>"
              "[''holiday/a.jpg'']"]
  by (simp add: coverKey_def firstKey_def)

lemma appendResolved_panic:
  "appendResolved res vs field = Inl p \<Longrightarrow> p = NilDereference"
proof (induction vs arbitrary: field)
  case Nil
  then show ?case by simp
next
  case (Cons v vs)
  show ?case
  proof (cases "res v")
    case None
    with Cons.prems show ?thesis by simp
  next
    case (Some fullPath)
    with Cons.prems have "appendResolved res vs (field @ [fullPath]) = Inl p" by simp
    then show ?thesis by (rule Cons.IH)
  qed
qed

lemma appendResolved_unresolved:
  assumes "v \<in> set vs" and "res v = None"
  shows "appendResolved res vs field = Inl NilDereference"
proof (cases "appendResolved res vs field")
  case (Inl p)
  then show ?thesis using appendResolved_panic by blast
next
  case (Inr out)
  from appendResolved_defined [OF Inr assms(1)] assms(2) show ?thesis by simp
qed

lemma preprocess_unresolved:
  assumes "key \<in> set ((if Cover cfg = [] then [] else [Cover cfg]) @ Thumbnails cfg @ Ordering cfg)"
    and "ResolveReference env (Path a) key = None"
  shows "preprocess env a cfg = Inl NilDereference"
proof -
  let ?res = "ResolveReference env (Path a)"
  show ?thesis
  proof (cases "Cover cfg \<noteq> [] \<and> ?res (Cover cfg) = None")
    case True
    then show ?thesis by (simp add: preprocess_def)
  next
    case False
    define o1 where "o1 = (if Cover cfg \<noteq> [] then cfg\<lparr>Cover := the (?res (Cover cfg))\<rparr> else cfg)"
    have o1: "Thumbnails o1 = Thumbnails cfg" "Ordering o1 = Ordering cfg"
      by (simp_all add: o1_def)
    have first: "(if Cover cfg \<noteq> [] then
              (case ?res (Cover cfg) of
                 None \<Rightarrow> Inl NilDereference
               | Some fullPath \<Rightarrow> Inr (cfg\<lparr>Cover := fullPath\<rparr>))
            else Inr cfg) = Inr o1"
      using False by (auto simp: o1_def)
    from assms False have mem: "key \<in> set (Thumbnails cfg) \<or> key \<in> set (Ordering cfg)"
      by (auto split: if_splits)
    show ?thesis
    proof (cases "key \<in> set (Thumbnails cfg)")
      case True
      then have "Thumbnails cfg \<noteq> []" by auto
      moreover from True assms(2)
      have "appendResolved ?res (Thumbnails cfg) (Thumbnails cfg) = Inl NilDereference"
        by (rule appendResolved_unresolved)
      ultimately show ?thesis
        unfolding preprocess_def first by (simp add: o1)
    next
      case nt: False
      with mem have ko: "key \<in> set (Ordering cfg)" by blast
      then have ne: "Ordering cfg \<noteq> []" by auto
      from ko assms(2)
      have ord: "appendResolved ?res (Ordering cfg) (Ordering cfg) = Inl NilDereference"
        by (rule appendResolved_unresolved)
      show ?thesis
      proof (cases "if length (Thumbnails o1) > 0
                    then appendResolved ?res (Thumbnails o1) (Thumbnails o1)
                    else Inr (Thumbnails o1)")
        case (Inl p)
        then have "p = NilDereference"
          by (auto split: if_splits dest: appendResolved_panic)
        with Inl show ?thesis unfolding preprocess_def first by simp
      next
        case (Inr th)
        then show ?thesis unfolding preprocess_def first using ne ord by (simp add: o1)
      qed
    qed
  qed
qed

lemma GetOrderedPhotos_unresolved_key:
  assumes "OrderingCache a = None \<or> NeedsOrderingCacheUpdate env a"
    and "S3ServiceError env = None"
    and "GetObject env (BucketPrefix a @ ORDERING_YAML_NAME) = Inr data_bytes"
    and "YamlUnmarshal env data_bytes = ((cover, thumbnailKeys, orderingKeys), None)"
    and "key \<in> set ((if cover = [] then [] else [cover]) @ thumbnailKeys @ orderingKeys)"
    and "ResolveReference env (Path a) key = None"
  shows "GetOrderedPhotos env a = Inl NilDereference"
proof -
  let ?cfg = "\<lparr>Cover = cover, Thumbnails = thumbnailKeys, Ordering = orderingKeys,
               negativeCacheThis = False\<rparr>"
  from assms(5) have "key \<in> set ((if Cover ?cfg = [] then [] else [Cover ?cfg])
                        @ Thumbnails ?cfg @ Ordering ?cfg)" by (auto split: if_splits)
  from preprocess_unresolved [OF this assms(6)]
  have "preprocess env a ?cfg = Inl NilDereference" .
  with assms(2,3,4) have "GetAlbumOrderingConfigurationFromS3AndPreprocess env a = Inl NilDereference"
    by (simp add: GetAlbumOrderingConfigurationFromS3AndPreprocess_def)
  then have "fetchAndStoreOrdering env a = Inl NilDereference"
    by (simp add: fetchAndStoreOrdering_def)
  with assms(1) have "GetAlbumOrderingConfiguration env a = Inl NilDereference"
    by (auto simp: GetAlbumOrderingConfiguration_def split: option.splits)
  then show ?thesis by (simp add: GetOrderedPhotos_def)
qed

lemma coverKey_value:
  "clean \<noteq> [] \<Longrightarrow>
   coverKey cfg clean =
     Inr (if Cover cfg \<noteq> [] \<and> containsPath clean (Cover cfg) then Cover cfg else hd clean)"
  by (cases clean) (simp_all add: coverKey_def firstKey_def)

lemma GetOrderedPhotos_value:
  assumes "GetAlbumOrderingConfiguration env a = Inr ((cfg, cfgErr), a1)"
    and "GetAllObjectKeys env a1 = Inr ((imageKeys, None), a2)"
    and "cleanKeys imageKeys [] \<noteq> []"
  shows "GetOrderedPhotos env a =
      Inr ((\<lparr>Cover_r = Some (GetPhotoForKey env
                (if Cover cfg \<noteq> [] \<and> containsPath (cleanKeys imageKeys []) (Cover cfg)
                 then Cover cfg else hd (cleanKeys imageKeys []))),
             Thumbnails_r = map (GetPhotoForKey env) (thumbKeys cfg (cleanKeys imageKeys [])),
             Ordering_r = map (GetPhotoForKey env)
                (mergeList (cleanKeys imageKeys []) (Ordering cfg))\<rparr>, None), a2)"
  using assms(1,2) coverKey_value [OF assms(3), of cfg]
  by (simp add: GetOrderedPhotos_def Let_def)

text \<open>
  C8 (what the code does). When the call for the ordering configuration has returned,
  with or without an error, the key listing succeeds and the cleaned key list is not
  empty, \<^verbatim>\<open>GetOrderedPhotos\<close> returns a nil error together with the cover, the thumbnails
  and the ordering computed from that configuration, which is the zero configuration
  when it came with an error. But when the ordering document is fetched (the slot is
  empty or stale), parses, and holds a key for which URL parsing fails, the nil URL is
  dereferenced and the call panics, whatever the key listing would return. A filled
  slot that is not stale is read without a fetch: the cached configuration is returned
  with a nil error and the album is unchanged.
\<close>

theorem GetOrderedPhotos_ordering_document_outcomes:
  "(GetAlbumOrderingConfiguration env a = Inr ((cfg, cfgErr), a1)
      \<and> GetAllObjectKeys env a1 = Inr ((imageKeys, None), a2)
      \<and> cleanKeys imageKeys [] \<noteq> [] \<longrightarrow>
    GetOrderedPhotos env a =
      Inr ((\<lparr>Cover_r = Some (GetPhotoForKey env
                (if Cover cfg \<noteq> [] \<and> containsPath (cleanKeys imageKeys []) (Cover cfg)
                 then Cover cfg else hd (cleanKeys imageKeys []))),
             Thumbnails_r = map (GetPhotoForKey env) (thumbKeys cfg (cleanKeys imageKeys [])),
             Ordering_r = map (GetPhotoForKey env)
                (mergeList (cleanKeys imageKeys []) (Ordering cfg))\<rparr>, None), a2)
    \<and> (cfgErr \<noteq> None \<longrightarrow> cfg = zeroConfiguration))
   \<and> ((OrderingCache a = None \<or> NeedsOrderingCacheUpdate env a)
      \<and> S3ServiceError env = None
      \<and> GetObject env (BucketPrefix a @ ORDERING_YAML_NAME) = Inr data_bytes
      \<and> YamlUnmarshal env data_bytes = ((cover, thumbnailKeys, orderingKeys), None)
      \<and> key \<in> set ((if cover = [] then [] else [cover]) @ thumbnailKeys @ orderingKeys)
      \<and> ResolveReference env (Path a) key = None \<longrightarrow>
    GetOrderedPhotos env a = Inl NilDereference)
   \<and> (OrderingCache a = Some cached \<and> \<not> NeedsOrderingCacheUpdate env a \<longrightarrow>
    GetAlbumOrderingConfiguration env a = Inr ((cached, None), a))"
proof (intro conjI impI)
  assume h: "GetAlbumOrderingConfiguration env a = Inr ((cfg, cfgErr), a1)
      \<and> GetAllObjectKeys env a1 = Inr ((imageKeys, None), a2)
      \<and> cleanKeys imageKeys [] \<noteq> []"
  then show "GetOrderedPhotos env a =
      Inr ((\<lparr>Cover_r = Some (GetPhotoForKey env
                (if Cover cfg \<noteq> [] \<and> containsPath (cleanKeys imageKeys []) (Cover cfg)
                 then Cover cfg else hd (cleanKeys imageKeys []))),
             Thumbnails_r = map (GetPhotoForKey env) (thumbKeys cfg (cleanKeys imageKeys [])),
             Ordering_r = map (GetPhotoForKey env)
                (mergeList (cleanKeys imageKeys []) (Ordering cfg))\<rparr>, None), a2)"
    using GetOrderedPhotos_value by blast
  assume "cfgErr \<noteq> None"
  then obtain err where "cfgErr = Some err" by blast
  with h show "cfg = zeroConfiguration"
    using GetAlbumOrderingConfiguration_error_zero by blast
next
  assume "(OrderingCache a = None \<or> NeedsOrderingCacheUpdate env a)
      \<and> S3ServiceError env = None
      \<and> GetObject env (BucketPrefix a @ ORDERING_YAML_NAME) = Inr data_bytes
      \<and> YamlUnmarshal env data_bytes = ((cover, thumbnailKeys, orderingKeys), None)
      \<and> key \<in> set ((if cover = [] then [] else [cover]) @ thumbnailKeys @ orderingKeys)
      \<and> ResolveReference env (Path a) key = None"
  then show "GetOrderedPhotos env a = Inl NilDereference"
    using GetOrderedPhotos_unresolved_key by blast
next
  assume "OrderingCache a = Some cached \<and> \<not> NeedsOrderingCacheUpdate env a"
  then show "GetAlbumOrderingConfiguration env a = Inr ((cached, None), a)"
    by (simp add: GetAlbumOrderingConfiguration_def)
qed


text \<open>
  C8, three instances: a store that answers the request for the ordering document with
  status 500 and lists two images; and an ordering document with the cover
  \<^verbatim>\<open>100%.jpg\<close> in an album whose listing succeeds with one image; and a read of a
  slot that was filled at the present time.
\<close>

theorem GetOrderedPhotos_ordering_document_outcomes_witness:
  "GetOrderedPhotos
       \<lparr>S3ServiceError = None,
        ListObjects = (\<lambda>prefix. Inr [''holiday/'', ''holiday/a.jpg'', ''holiday/b.jpg'']),
        GetObject = (\<lambda>key. Inl (RequestFailure 500)),
        YamlUnmarshal = (\<lambda>data. (([], [], []), None)),
        ResolveReference = (\<lambda>base ref. if CHR ''%'' \<in> set ref then None else Some (base @ ref)),
        GetPhotoForKey = (\<lambda>key. key),
        Now = 1700000000000000000\<rparr>
       \<lparr>Path = ''holiday/'', BucketPrefix = ''holiday/'', AuthUser = [], AuthPass = [],
        MetaTitle = [], AlbumTitle = [], InIndex = True, KeyCache = None,
        OrderingCache = None, LastKeyCacheUpdate = zeroTime, LastOrderingCacheUpdate = zeroTime\<rparr>
     = Inr ((\<lparr>Cover_r = Some ''holiday/a.jpg'',
              Thumbnails_r = [''holiday/b.jpg''],
              Ordering_r = [''holiday/a.jpg'', ''holiday/b.jpg'']\<rparr>, None),
       \<lparr>Path = ''holiday/'', BucketPrefix = ''holiday/'', AuthUser = [], AuthPass = [],
        MetaTitle = [], AlbumTitle = [], InIndex = True,
        KeyCache = Some [''holiday/a.jpg'', ''holiday/b.jpg''],
        OrderingCache = None, LastKeyCacheUpdate = 1700000000000000000,
        LastOrderingCacheUpdate = zeroTime\<rparr>)
   \<and> GetAllObjectKeys
       \<lparr>S3ServiceError = None,
        ListObjects = (\<lambda>prefix. Inr [''holiday/'', ''holiday/a.jpg'', ''holiday/ordering.yaml'']),
        GetObject = (\<lambda>key. Inr ''cover: 100%.jpg''),
        YamlUnmarshal = (\<lambda>data. ((''100%.jpg'', [], []), None)),
        ResolveReference = (\<lambda>base ref. if CHR ''%'' \<in> set ref then None else Some (base @ ref)),
        GetPhotoForKey = (\<lambda>key. key),
        Now = 1700000000000000000\<rparr>
       \<lparr>Path = ''holiday/'', BucketPrefix = ''holiday/'', AuthUser = [], AuthPass = [],
        MetaTitle = [], AlbumTitle = [], InIndex = True, KeyCache = None,
        OrderingCache = None, LastKeyCacheUpdate = zeroTime, LastOrderingCacheUpdate = zeroTime\<rparr>
     = Inr (([''holiday/a.jpg'', ''holiday/ordering.yaml''], None),
       \<lparr>Path = ''holiday/'', BucketPrefix = ''holiday/'', AuthUser = [], AuthPass = [],
        MetaTitle = [], AlbumTitle = [], InIndex = True,
        KeyCache = Some [''holiday/a.jpg'', ''holiday/ordering.yaml''],
        OrderingCache = None, LastKeyCacheUpdate = 1700000000000000000,
        LastOrderingCacheUpdate = zeroTime\<rparr>)
   \<and> cleanKeys [''holiday/a.jpg'', ''holiday/ordering.yaml''] [] = [''holiday/a.jpg'']
   \<and> GetOrderedPhotos
       \<lparr>S3ServiceError = None,
        ListObjects = (\<lambda>prefix. Inr [''holiday/'', ''holiday/a.jpg'', ''holiday/ordering.yaml'']),
        GetObject = (\<lambda>key. Inr ''cover: 100%.jpg''),
        YamlUnmarshal = (\<lambda>data. ((''100%.jpg'', [], []), None)),
        ResolveReference = (\<lambda>base ref. if CHR ''%'' \<in> set ref then None else Some (base @ ref)),
        GetPhotoForKey = (\<lambda>key. key),
        Now = 1700000000000000000\<rparr>
       \<lparr>Path = ''holiday/'', BucketPrefix = ''holiday/'', AuthUser = [], AuthPass = [],
        MetaTitle = [], AlbumTitle = [], InIndex = True, KeyCache = None,
        OrderingCache = None, LastKeyCacheUpdate = zeroTime, LastOrderingCacheUpdate = zeroTime\<rparr>
     = Inl NilDereference
   \<and> GetAlbumOrderingConfiguration
       \<lparr>S3ServiceError = None,
        ListObjects = (\<lambda>prefix. Inr [''holiday/'', ''holiday/a.jpg'', ''holiday/b.jpg'']),
        GetObject = (\<lambda>key. Inl (RequestFailure 500)),
        YamlUnmarshal = (\<lambda>data. (([], [], []), None)),
        ResolveReference = (\<lambda>base ref. if CHR ''%'' \<in> set ref then None else Some (base @ ref)),
        GetPhotoForKey = (\<lambda>key. key),
        Now = 1700000000000000000\<rparr>
       \<lparr>Path = ''holiday/'', BucketPrefix = ''holiday/'', AuthUser = [], AuthPass = [],
        MetaTitle = [], AlbumTitle = [], InIndex = True, KeyCache = None,
        OrderingCache = Some \<lparr>Cover = [], Thumbnails = [], Ordering = [],
                               negativeCacheThis = True\<rparr>,
        LastKeyCacheUpdate = zeroTime, LastOrderingCacheUpdate = 1700000000000000000\<rparr>
     = Inr ((\<lparr>Cover = [], Thumbnails = [], Ordering = [], negativeCacheThis = True\<rparr>, None),
       \<lparr>Path = ''holiday/'', BucketPrefix = ''holiday/'', AuthUser = [], AuthPass = [],
        MetaTitle = [], AlbumTitle = [], InIndex = True, KeyCache = None,
        OrderingCache = Some \<lparr>Cover = [], Thumbnails = [], Ordering = [],
                               negativeCacheThis = True\<rparr>,
        LastKeyCacheUpdate = zeroTime, LastOrderingCacheUpdate = 1700000000000000000\<rparr>)"
proof -
  let ?resolve = "\<lambda>base ref. if CHR ''%'' \<in> set ref then None else Some (base @ ref)"
  let ?env = "\<lparr>S3ServiceError = None,
        ListObjects = (\<lambda>prefix. Inr [''holiday/'', ''holiday/a.jpg'', ''holiday/b.jpg'']),
        GetObject = (\<lambda>key. Inl (RequestFailure 500)),
        YamlUnmarshal = (\<lambda>data. (([], [], []), None)),
        ResolveReference = ?resolve,
        GetPhotoForKey = (\<lambda>key. key),
        Now = 1700000000000000000\<rparr> :: string Env"
  let ?bad = "\<lparr>S3ServiceError = None,
        ListObjects = (\<lambda>prefix. Inr [''holiday/'', ''holiday/a.jpg'', ''holiday/ordering.yaml'']),
        GetObject = (\<lambda>key. Inr ''cover: 100%.jpg''),
        YamlUnmarshal = (\<lambda>data. ((''100%.jpg'', [], []), None)),
        ResolveReference = ?resolve,
        GetPhotoForKey = (\<lambda>key. key),
        Now = 1700000000000000000\<rparr> :: string Env"
  let ?a = "\<lparr>Path = ''holiday/'', BucketPrefix = ''holiday/'', AuthUser = [], AuthPass = [],
        MetaTitle = [], AlbumTitle = [], InIndex = True, KeyCache = None,
        OrderingCache = None, LastKeyCacheUpdate = zeroTime, LastOrderingCacheUpdate = zeroTime\<rparr>"
  let ?a2 = "\<lparr>Path = ''holiday/'', BucketPrefix = ''holiday/'', AuthUser = [], AuthPass = [],
        MetaTitle = [], AlbumTitle = [], InIndex = True,
        KeyCache = Some [''holiday/a.jpg'', ''holiday/b.jpg''],
        OrderingCache = None, LastKeyCacheUpdate = 1700000000000000000,
        LastOrderingCacheUpdate = zeroTime\<rparr>"
  let ?keys = "[''holiday/a.jpg'', ''holiday/b.jpg'']"
  have cfg: "GetAlbumOrderingConfiguration ?env ?a
               = Inr ((zeroConfiguration, Some (RequestFailure 500)), ?a)"
    by (simp add: GetAlbumOrderingConfiguration_def fetchAndStoreOrdering_def
        GetAlbumOrderingConfigurationFromS3AndPreprocess_def zeroConfiguration_def)
  have keys: "GetAllObjectKeys ?env ?a = Inr ((?keys, None), ?a2)"
    by (simp add: GetAllObjectKeys_def fetchAndStoreKeys_def GetAllObjectKeysFromBucket_def
        GetAllObjects_def)
  have clean: "cleanKeys ?keys [] = ?keys"
    by (simp add: HasSuffix_def ORDERING_YAML_NAME_def)
  then have ne: "cleanKeys ?keys [] \<noteq> []" by simp
  note good = GetOrderedPhotos_ordering_document_outcomes
      [of ?env ?a zeroConfiguration "Some (RequestFailure 500)" ?a ?keys ?a2]
  from good cfg keys ne
  have one: "GetOrderedPhotos ?env ?a =
      Inr ((\<lparr>Cover_r = Some ''holiday/a.jpg'', Thumbnails_r = [''holiday/b.jpg''],
              Ordering_r = [''holiday/a.jpg'', ''holiday/b.jpg'']\<rparr>, None), ?a2)"
    by (simp add: HasSuffix_def ORDERING_YAML_NAME_def mergeList_def TrimLeft_def
        thumbKeys_def zeroConfiguration_def)
  have listing: "GetAllObjectKeys ?bad ?a
      = Inr (([''holiday/a.jpg'', ''holiday/ordering.yaml''], None),
       \<lparr>Path = ''holiday/'', BucketPrefix = ''holiday/'', AuthUser = [], AuthPass = [],
        MetaTitle = [], AlbumTitle = [], InIndex = True,
        KeyCache = Some [''holiday/a.jpg'', ''holiday/ordering.yaml''],
        OrderingCache = None, LastKeyCacheUpdate = 1700000000000000000,
        LastOrderingCacheUpdate = zeroTime\<rparr>)"
    by (simp add: GetAllObjectKeys_def fetchAndStoreKeys_def GetAllObjectKeysFromBucket_def
        GetAllObjects_def)
  have cleaned: "cleanKeys [''holiday/a.jpg'', ''holiday/ordering.yaml''] [] = [''holiday/a.jpg'']"
    by (simp add: HasSuffix_def ORDERING_YAML_NAME_def)
  note bad = GetOrderedPhotos_ordering_document_outcomes
      [where env = ?bad and a = ?a and data_bytes = "''cover: 100%.jpg''"
         and cover = "''100%.jpg''" and thumbnailKeys = "[]" and orderingKeys = "[]"
         and key = "''100%.jpg''"]
  from bad have two: "GetOrderedPhotos ?bad ?a = Inl NilDereference"
    by simp
  let ?negative = "\<lparr>Cover = [], Thumbnails = [], Ordering = [], negativeCacheThis = True\<rparr>"
  let ?c = "\<lparr>Path = ''holiday/'', BucketPrefix = ''holiday/'', AuthUser = [], AuthPass = [],
        MetaTitle = [], AlbumTitle = [], InIndex = True, KeyCache = None,
        OrderingCache = Some ?negative,
        LastKeyCacheUpdate = zeroTime, LastOrderingCacheUpdate = 1700000000000000000\<rparr>"
  have fresh: "\<not> NeedsOrderingCacheUpdate ?env ?c"
    by (simp add: NeedsOrderingCacheUpdate_def CACHE_INTERVAL_def)
  note hit = GetOrderedPhotos_ordering_document_outcomes
      [where env = ?env and a = ?c and cached = ?negative]
  from hit fresh have three: "GetAlbumOrderingConfiguration ?env ?c = Inr ((?negative, None), ?c)"
    by simp
  from one listing cleaned two three show ?thesis by blast
qed

end
